theory Spec2Isabelle
  imports Main
begin

section \<open>JavaScript values and string helpers\<close>

text \<open>
  Strings are lists of characters; \<open>length\<close> stands for the \<open>.length\<close> of the source
  string. A value that may be \<open>undefined\<close> is an \<open>option\<close>. JSON values (the parsed
  reply of the categorization model and the bodies posted to webhooks) are a datatype.
\<close>

datatype jv =
    JNull
  | JBool bool
  | JNum int
  | JStr string
  | JArr "jv list"
  | JObj "(string \<times> jv) list"

text \<open>Property read \<open>o.key\<close> on a parsed JSON object: the last duplicate key wins.\<close>

definition jfield :: "string \<Rightarrow> jv \<Rightarrow> jv option" where
  "jfield k v = (case v of JObj kvs \<Rightarrow> map_of (rev kvs) k | _ \<Rightarrow> None)"

text \<open>\<open>s || ""\<close> and the truthiness of an optional string.\<close>

definition or_empty :: "string option \<Rightarrow> string" where
  "or_empty s = (case s of None \<Rightarrow> [] | Some t \<Rightarrow> t)"

definition truthy :: "string option \<Rightarrow> bool" where
  "truthy s = (case s of None \<Rightarrow> False | Some t \<Rightarrow> t \<noteq> [])"

text \<open>\<open>String.prototype.trim\<close>, on the white space of the Latin-1 range.\<close>

definition is_ws :: "char \<Rightarrow> bool" where
  "is_ws c = (of_char c \<in> {9, 10, 11, 12, 13, 32, 160 :: nat})"

definition trim :: "string \<Rightarrow> string" where
  "trim s = rev (dropWhile is_ws (rev (dropWhile is_ws s)))"

text \<open>\<open>s.substring(0, n)\<close> for a literal \<open>n \<ge> 0\<close>.\<close>

definition substring0 :: "nat \<Rightarrow> string \<Rightarrow> string" where
  "substring0 n s = take n s"

text \<open>
  \<open>Array.prototype.slice(start, end)\<close>: a negative index counts from the end, and
  both are clamped to the array.
\<close>

definition slice_index :: "nat \<Rightarrow> int \<Rightarrow> nat" where
  "slice_index len i = (if i < 0 then nat (max (int len + i) 0) else min (nat i) len)"

definition slice :: "int \<Rightarrow> int option \<Rightarrow> 'a list \<Rightarrow> 'a list" where
  "slice start end xs =
     (let len = length xs;
          k = slice_index len start;
          fin = (case end of None \<Rightarrow> len | Some e \<Rightarrow> slice_index len e)
      in take (fin - k) (drop k xs))"

text \<open>Decimal rendering of a number in a template string.\<close>

fun show_nat :: "nat \<Rightarrow> string" where
  "show_nat n =
     (if n < 10 then [char_of (48 + n)]
      else show_nat (n div 10) @ [char_of (48 + n mod 10)])"

declare show_nat.simps [simp del]

text \<open>A set of strings in insertion order, as \<open>Array.from\<close> lists it.\<close>

definition set_add :: "string list \<Rightarrow> string \<Rightarrow> string list" where
  "set_add xs u = (if u \<in> set xs then xs else xs @ [u])"

definition set_delete :: "string list \<Rightarrow> string \<Rightarrow> string list" where
  "set_delete xs u = filter (\<lambda>x. x \<noteq> u) xs"

text \<open>
  The numbers of the reconnection policy. \<open>parseInt\<close> yields \<open>NaN\<close>, an
  infinity or a finite double of integer value, which \<open>Num\<close> holds (the two zeros
  are one \<open>Num 0\<close>). \<open>times_pow2 x k\<close> is \<open>x * Math.pow(2, k)\<close> for a
  counter \<open>k\<close>: the power is exact up to \<open>k = 1023\<close> and \<open>Infinity\<close> beyond,
  the product of a double and a power of two is exact unless it leaves the range of
  the doubles, and \<open>0 * Infinity\<close> is \<open>NaN\<close>.
\<close>

datatype jsnum =
    NaN
  | NegInf
  | Num int
  | PosInf

definition double_limit :: int where
  "double_limit = 2 ^ 1024"

definition times_pow2 :: "jsnum \<Rightarrow> nat \<Rightarrow> jsnum" where
  "times_pow2 x k =
     (case x of
        NaN \<Rightarrow> NaN
      | NegInf \<Rightarrow> NegInf
      | PosInf \<Rightarrow> PosInf
      | Num a \<Rightarrow>
          (if k \<le> 1023
           then (if double_limit \<le> a * 2 ^ k then PosInf
                 else if a * 2 ^ k \<le> - double_limit then NegInf
                 else Num (a * 2 ^ k))
           else (if a = 0 then NaN else if 0 < a then PosInf else NegInf)))"

text \<open>\<open>Math.min(x, y)\<close>.\<close>

definition js_min :: "jsnum \<Rightarrow> jsnum \<Rightarrow> jsnum" where
  "js_min x y =
     (if x = NaN \<or> y = NaN then NaN
      else if x = NegInf \<or> y = NegInf then NegInf
      else (case x of
              PosInf \<Rightarrow> y
            | Num a \<Rightarrow> (case y of Num b \<Rightarrow> Num (min a b) | _ \<Rightarrow> Num a)
            | _ \<Rightarrow> x))"

text \<open>\<open>k >= m\<close> for a counter \<open>k\<close>: false when \<open>m\<close> is \<open>NaN\<close>.\<close>

definition counter_ge :: "nat \<Rightarrow> jsnum \<Rightarrow> bool" where
  "counter_ge k m =
     (case m of NaN \<Rightarrow> False | PosInf \<Rightarrow> False | NegInf \<Rightarrow> True | Num b \<Rightarrow> b \<le> int k)"

text \<open>
  \<open>k + 1\<close> for a counter \<open>k\<close>, which starts at 0 and only grows by this
  step: exact below \<open>2 ^ 53\<close>, where the sum rounds back to \<open>2 ^ 53\<close>.
\<close>

definition next_attempt :: "nat \<Rightarrow> nat" where
  "next_attempt k = (if k < 2 ^ 53 then k + 1 else k)"

section \<open>Data model (types/index.ts)\<close>

type_synonym AICategory = string

record EmailAccount =
  acc_id :: string
  acc_email :: string
  acc_password :: string
  acc_imapHost :: string
  acc_imapPort :: nat

record EmailDocument =
  doc_id :: string
  doc_accountId :: string
  doc_folder :: string
  doc_subject :: string
  doc_body :: string
  doc_htmlBody :: "string option"
  doc_from :: string
  doc_to :: "string list"
  doc_cc :: "string list option"
  doc_date :: nat
  doc_aiCategory :: AICategory
  doc_indexedAt :: nat
  doc_messageId :: string
  doc_inReplyTo :: "string option"
  doc_references :: "string list option"

record AICategorizationResponse =
  category :: AICategory

record IMAPConnectionStatus =
  st_accountId :: string
  st_connected :: bool
  st_lastSync :: nat
  st_error :: "string option"

text \<open>The parsed message of the mail parser, with the fields the pipeline reads.\<close>

record EmailAddress =
  ea_name :: string
  ea_address :: "string option"

record AddressObject =
  ao_value :: "EmailAddress list option"

datatype address_field =
    Absent
  | One AddressObject
  | Several "AddressObject list"

datatype references_field =
    NoReferences
  | OneReference string
  | ManyReferences "string list"

record ParsedMail =
  pm_messageId :: "string option"
  pm_html :: "string option"
  pm_text :: "string option"
  pm_subject :: "string option"
  pm_from :: address_field
  pm_to :: address_field
  pm_cc :: address_field
  pm_date :: "nat option"
  pm_inReplyTo :: "string option"
  pm_references :: references_field

section \<open>Configuration (config/index.ts)\<close>

record Config =
  cfg_port :: nat
  cfg_appBaseUrl :: "string option"
  cfg_maxReconnectAttempts :: jsnum
  cfg_reconnectDelay :: jsnum
  cfg_aiConfigured :: bool
  cfg_interestedUrls :: "string list"
  cfg_slack :: "string option"
  cfg_generic :: "string option"

section \<open>The world the services act on\<close>

datatype error =
    EsError
  | AiError
  | JsonSyntaxError
  | TypeError
  | HttpError "nat option"
  | ParseError
  | ImapError

datatype post_outcome =
    Delivered
  | HttpStatus nat
  | NetworkError

datatype ai_outcome =
    AiThrows
  | AiBadJson
  | AiJson jv

text \<open>
  What the collaborators answer during one run of the pipeline: the index, the
  categorization model, the destinations, the identifier generator, the clock and the
  HTML converter. \<open>ai_reply\<close> is what \<open>JSON.parse(response.text())\<close> yields:
  \<open>AiThrows\<close> when the request or the reading of the response throws (unreachable,
  timed out, blocked), \<open>AiBadJson\<close> when the text is not JSON.
\<close>

record outcomes =
  search_ok :: bool
  index_ok :: bool
  update_ok :: bool
  ai_reply :: ai_outcome
  post_result :: "string \<Rightarrow> post_outcome"
  uuid :: string
  now :: nat
  htmlToText :: "string \<Rightarrow> string"

datatype log_event =
    ErrSearchByMessageId
  | ErrIndexingEmail
  | ErrUpdatingCategory
  | WarnAiNotConfigured
  | ErrCategorizing
  | LogTriggering string
  | LogAllTriggered
  | ErrTriggering
  | WarnSlackNotConfigured
  | LogSlackSent
  | ErrSlack
  | WarnGenericNotConfigured
  | LogGenericTriggered
  | WarnRateLimited string
  | ErrWebhook string
  | WarnNoUrls
  | LogBroadcast nat nat
  | LogDuplicate string string
  | LogProcessed string AICategory
  | ErrProcessingEmail
  | ErrFetchedEmail
  | ErrFetch
  | LogConnected string
  | ErrReady string
  | LogNewMail nat string
  | ErrSearchNew
  | LogStartingInitialSync string
  | LogNoEmails string
  | LogFound nat nat string
  | LogInitialSyncCompleted string
  | LogStartingIdle string
  | LogIdleActive string
  | LogMaxReconnect string
  | LogReconnecting string jsnum nat

record world =
  es_docs :: "EmailDocument list"
  ai_calls :: "string list"
  posts :: "(string \<times> jv) list"
  logs :: "log_event list"
  reconnectAttempts :: "string \<rightharpoonup> nat"
  connectionStatus :: "string \<rightharpoonup> IMAPConnectionStatus"
  timers :: "(string \<times> jsnum) list"
  watchdogs :: "string list"

definition log :: "world \<Rightarrow> log_event \<Rightarrow> world" where
  "log w e = w\<lparr>logs := logs w @ [e]\<rparr>"

section \<open>ElasticsearchService\<close>

text \<open>
  The index is the list of its documents. \<open>client.index\<close> with an id replaces the
  document of that id or appends a new one; \<open>client.update\<close> patches the document
  of that id and throws when there is none; the term query on \<open>messageId\<close> matches
  the exact keyword. Each request may also fail as a whole (\<open>search_ok\<close>,
  \<open>index_ok\<close>, \<open>update_ok\<close>).
\<close>

definition es_put :: "EmailDocument \<Rightarrow> EmailDocument list \<Rightarrow> EmailDocument list" where
  "es_put d ds =
     (if doc_id d \<in> doc_id ` set ds
      then map (\<lambda>x. if doc_id x = doc_id d then d else x) ds
      else ds @ [d])"

definition indexEmail :: "outcomes \<Rightarrow> EmailDocument \<Rightarrow> world \<Rightarrow> (error + unit) \<times> world" where
  "indexEmail out email w =
     (if index_ok out then (Inr (), w\<lparr>es_docs := es_put email (es_docs w)\<rparr>)
      else (Inl EsError, log w ErrIndexingEmail))"

definition updateEmailCategory ::
  "outcomes \<Rightarrow> string \<Rightarrow> AICategory \<Rightarrow> world \<Rightarrow> (error + unit) \<times> world" where
  "updateEmailCategory out emailId cat w =
     (if update_ok out \<and> emailId \<in> doc_id ` set (es_docs w)
      then (Inr (), w\<lparr>es_docs :=
              map (\<lambda>x. if doc_id x = emailId then x\<lparr>doc_aiCategory := cat\<rparr> else x) (es_docs w)\<rparr>)
      else (Inl EsError, log w ErrUpdatingCategory))"

definition findByMessageId ::
  "outcomes \<Rightarrow> string \<Rightarrow> world \<Rightarrow> (string \<times> EmailDocument) option \<times> world" where
  "findByMessageId out messageId w =
     (if search_ok out
      then (case filter (\<lambda>d. doc_messageId d = messageId) (es_docs w) of
              [] \<Rightarrow> (None, w)
            | hit # _ \<Rightarrow> (Some (doc_id hit, hit), w))
      else (None, log w ErrSearchByMessageId))"

definition existsByMessageId :: "outcomes \<Rightarrow> string \<Rightarrow> world \<Rightarrow> bool \<times> world" where
  "existsByMessageId out messageId w =
     (case findByMessageId out messageId w of (found, w') \<Rightarrow> (found \<noteq> None, w'))"

section \<open>AIService\<close>

definition validCategories :: "string list" where
  "validCategories =
     [''Interested'', ''Meeting Booked'', ''Not Interested'', ''Spam'',
      ''Out of Office'', ''Uncategorized'']"

definition prompt_of :: "string \<Rightarrow> string \<Rightarrow> string \<Rightarrow> string" where
  "prompt_of subject body sender =
     trim ([CHR 0x0A] @ ''        From: '' @ sender @ [CHR 0x0A]
           @ ''        Subject: '' @ subject @ [CHR 0x0A]
           @ ''        Body: '' @ substring0 4000 body @ [CHR 0x0A] @ ''      '')"

text \<open>
  The body of the \<open>try\<close> block of \<open>categorizeEmail\<close>: the request, the parse of the
  reply, the read of its \<open>category\<close> (a \<open>TypeError\<close> on \<open>null\<close>) and the check
  against \<open>validCategories\<close> (\<open>includes\<close> finds strings only).
\<close>

definition categorize_try ::
  "outcomes \<Rightarrow> string \<Rightarrow> string \<Rightarrow> string \<Rightarrow> world \<Rightarrow> (error + AICategorizationResponse) \<times> world" where
  "categorize_try out subject body sender w =
     (let w1 = w\<lparr>ai_calls := ai_calls w @ [prompt_of subject body sender]\<rparr>
      in case ai_reply out of
           AiThrows \<Rightarrow> (Inl AiError, w1)
         | AiBadJson \<Rightarrow> (Inl JsonSyntaxError, w1)
         | AiJson JNull \<Rightarrow> (Inl TypeError, w1)
         | AiJson jsonResponse \<Rightarrow>
             (case jfield ''category'' jsonResponse of
                Some (JStr c) \<Rightarrow>
                  (if c \<noteq> [] \<and> c \<in> set validCategories
                   then (Inr \<lparr>category = c\<rparr>, w1)
                   else (Inr \<lparr>category = ''Uncategorized''\<rparr>, w1))
              | _ \<Rightarrow> (Inr \<lparr>category = ''Uncategorized''\<rparr>, w1)))"

definition categorizeEmail ::
  "Config \<Rightarrow> outcomes \<Rightarrow> string \<Rightarrow> string \<Rightarrow> string \<Rightarrow> world \<Rightarrow> (error + AICategorizationResponse) \<times> world" where
  "categorizeEmail cfg out subject body sender w =
     (if \<not> cfg_aiConfigured cfg
      then (Inr \<lparr>category = ''Uncategorized''\<rparr>, log w WarnAiNotConfigured)
      else (case categorize_try out subject body sender w of
              (Inr r, w') \<Rightarrow> (Inr r, w')
            | (Inl e, w') \<Rightarrow> (Inr \<lparr>category = ''Uncategorized''\<rparr>, log w' ErrCategorizing)))"

section \<open>WebhookService\<close>

text \<open>
  \<open>axios.post\<close> appends the attempt to \<open>posts\<close> and resolves or throws as the
  destination answers. The emoji of the literal texts are left out.
\<close>

definition base_url :: "Config \<Rightarrow> string" where
  "base_url cfg =
     (if truthy (cfg_appBaseUrl cfg) then or_empty (cfg_appBaseUrl cfg)
      else ''http://localhost:'' @ show_nat (cfg_port cfg))"

definition emailUrl_of :: "Config \<Rightarrow> EmailDocument \<Rightarrow> string" where
  "emailUrl_of cfg email = base_url cfg @ ''/#email-'' @ doc_id email"

definition slackPayload :: "Config \<Rightarrow> EmailDocument \<Rightarrow> jv" where
  "slackPayload cfg email =
     JObj [(''text'', JStr ''New Interested Lead!''),
           (''blocks'', JArr
              [JObj [(''type'', JStr ''header''),
                     (''text'', JObj [(''type'', JStr ''plain_text''),
                                      (''text'', JStr ''New Interested Lead''),
                                      (''emoji'', JBool True)])],
               JObj [(''type'', JStr ''section''),
                     (''fields'', JArr
                        [JObj [(''type'', JStr ''mrkdwn''),
                               (''text'', JStr (''*From:*'' @ [CHR 0x0A] @ doc_from email))],
                         JObj [(''type'', JStr ''mrkdwn''),
                               (''text'', JStr (''*Subject:*'' @ [CHR 0x0A] @ doc_subject email))]])],
               JObj [(''type'', JStr ''actions''),
                     (''elements'', JArr
                        [JObj [(''type'', JStr ''button''),
                               (''text'', JObj [(''type'', JStr ''plain_text''),
                                                (''text'', JStr ''View Email'')]),
                               (''url'', JStr (emailUrl_of cfg email)),
                               (''style'', JStr ''primary'')]])],
               JObj [(''type'', JStr ''divider'')]])]"

definition sendSlackNotification ::
  "Config \<Rightarrow> outcomes \<Rightarrow> EmailDocument \<Rightarrow> world \<Rightarrow> (error + unit) \<times> world" where
  "sendSlackNotification cfg out email w =
     (if \<not> truthy (cfg_slack cfg) then (Inr (), log w WarnSlackNotConfigured)
      else
        (let slackUrl = or_empty (cfg_slack cfg);
             w1 = w\<lparr>posts := posts w @ [(slackUrl, slackPayload cfg email)]\<rparr>
         in case post_result out slackUrl of
              Delivered \<Rightarrow> (Inr (), log w1 LogSlackSent)
            | HttpStatus s \<Rightarrow> (Inl (HttpError (Some s)), log w1 ErrSlack)
            | NetworkError \<Rightarrow> (Inl (HttpError None), log w1 ErrSlack)))"

definition sanitizedEmail :: "EmailDocument \<Rightarrow> (string \<times> jv) list" where
  "sanitizedEmail email =
     [(''id'', JStr (doc_id email)),
      (''accountId'', JStr (doc_accountId email)),
      (''folder'', JStr (doc_folder email)),
      (''subject'', JStr (doc_subject email)),
      (''from'', JStr (doc_from email)),
      (''to'', JArr (map JStr (slice 0 (Some 5) (doc_to email))))]
     @ (case doc_cc email of
          None \<Rightarrow> []
        | Some cc \<Rightarrow> (if length cc > 0 then [(''cc'', JArr (map JStr (slice 0 (Some 5) cc)))] else []))
     @ [(''date'', JNum (int (doc_date email))),
        (''aiCategory'', JStr (doc_aiCategory email)),
        (''messageId'', JStr (doc_messageId email)),
        (''body'', JStr (substring0 300 (doc_body email)))]"

definition basePayload :: "Config \<Rightarrow> outcomes \<Rightarrow> EmailDocument \<Rightarrow> jv" where
  "basePayload cfg out email =
     JObj [(''event'', JStr ''InterestedLead''),
           (''email'', JObj (sanitizedEmail email)),
           (''emailUrl'', JStr (emailUrl_of cfg email)),
           (''timestamp'', JNum (int (now out)))]"

definition postSafely :: "outcomes \<Rightarrow> string \<Rightarrow> jv \<Rightarrow> world \<Rightarrow> bool \<times> world" where
  "postSafely out url payload w =
     (let w1 = w\<lparr>posts := posts w @ [(url, payload)]\<rparr>
      in case post_result out url of
           Delivered \<Rightarrow> (True, w1)
         | HttpStatus s \<Rightarrow>
             (if s = 429 then (False, log w1 (WarnRateLimited url))
              else (False, log w1 (ErrWebhook url)))
         | NetworkError \<Rightarrow> (False, log w1 (ErrWebhook url)))"

text \<open>\<open>Promise.all(urls.map(u => postSafely(u, basePayload)))\<close>, in the order of \<open>urls\<close>.\<close>

fun broadcast :: "outcomes \<Rightarrow> jv \<Rightarrow> string list \<Rightarrow> world \<Rightarrow> bool list \<times> world" where
  "broadcast out payload [] w = ([], w)"
| "broadcast out payload (u # us) w =
     (case postSafely out u payload w of
        (ok, w1) \<Rightarrow> (case broadcast out payload us w1 of (oks, w2) \<Rightarrow> (ok # oks, w2)))"

text \<open>The set of URLs of the broadcast: the generic URL and the list, less the primary.\<close>

definition broadcast_urls :: "Config \<Rightarrow> string \<Rightarrow> string list" where
  "broadcast_urls cfg genericUrl =
     (let s0 = (if truthy (cfg_generic cfg) then set_add [] (or_empty (cfg_generic cfg)) else []);
          s1 = fold (\<lambda>u s. set_add s u) (filter (\<lambda>u. u \<noteq> []) (cfg_interestedUrls cfg)) s0
      in set_delete s1 genericUrl)"

definition sendGenericWebhook ::
  "Config \<Rightarrow> outcomes \<Rightarrow> EmailDocument \<Rightarrow> world \<Rightarrow> (error + unit) \<times> world" where
  "sendGenericWebhook cfg out email w =
     (if \<not> truthy (cfg_generic cfg) then (Inr (), log w WarnGenericNotConfigured)
      else
        (let genericUrl = or_empty (cfg_generic cfg);
             payload = basePayload cfg out email
         in case postSafely out genericUrl payload w of
              (okPrimary, w1) \<Rightarrow>
                (let w2 = (if okPrimary then log w1 LogGenericTriggered else w1);
                     urls = broadcast_urls cfg genericUrl
                 in if length urls = 0 then (Inr (), log w2 WarnNoUrls)
                    else (case broadcast out payload urls w2 of
                            (results, w3) \<Rightarrow>
                              (let successCount = length (filter (\<lambda>b. b) results)
                               in (Inr (), log w3 (LogBroadcast successCount (length urls))))))))"

text \<open>\<open>Promise.all\<close> over settled results: the first rejection, or fulfilment.\<close>

fun promise_all :: "(error + unit) list \<Rightarrow> error + unit" where
  "promise_all [] = Inr ()"
| "promise_all (Inl e # rs) = Inl e"
| "promise_all (Inr _ # rs) = promise_all rs"

text \<open>
  Both senders are started before \<open>Promise.all\<close> is awaited, so each runs to its end
  whatever the other does; the model runs Slack first, then the generic sender.
\<close>

definition triggerInterestedWebhooks ::
  "Config \<Rightarrow> outcomes \<Rightarrow> EmailDocument \<Rightarrow> world \<Rightarrow> (error + unit) \<times> world" where
  "triggerInterestedWebhooks cfg out email w =
     (let w0 = log w (LogTriggering (doc_subject email));
          p1 = (if truthy (cfg_slack cfg)
                then (case sendSlackNotification cfg out email w0 of (r, w') \<Rightarrow> ([r], w'))
                else ([], w0));
          p2 = (if truthy (cfg_generic cfg)
                then (case sendGenericWebhook cfg out email (snd p1) of (r, w') \<Rightarrow> ([r], w'))
                else ([], snd p1))
      in case promise_all (fst p1 @ fst p2) of
           Inr _ \<Rightarrow> (Inr (), log (snd p2) LogAllTriggered)
         | Inl e \<Rightarrow> (Inr (), log (snd p2) ErrTriggering))"

section \<open>IMAPService: the ingestion pipeline\<close>

definition address_or_empty :: "EmailAddress \<Rightarrow> string" where
  "address_or_empty v = or_empty (ea_address v)"

definition value_addresses :: "AddressObject \<Rightarrow> string list" where
  "value_addresses item =
     (case ao_value item of Some vs \<Rightarrow> map address_or_empty vs | None \<Rightarrow> [])"

fun getAddresses :: "address_field \<Rightarrow> string list" where
  "getAddresses Absent = []"
| "getAddresses (Several field) = concat (map value_addresses field)"
| "getAddresses (One field) = value_addresses field"

definition fromText :: "ParsedMail \<Rightarrow> string" where
  "fromText parsed =
     (case pm_from parsed of
        Absent \<Rightarrow> []
      | field \<Rightarrow> (case getAddresses field of [] \<Rightarrow> [] | a # _ \<Rightarrow> a))"

definition ccText :: "ParsedMail \<Rightarrow> string list option" where
  "ccText parsed =
     (case pm_cc parsed of Absent \<Rightarrow> None | field \<Rightarrow> Some (getAddresses field))"

definition bodyText :: "outcomes \<Rightarrow> ParsedMail \<Rightarrow> string" where
  "bodyText out parsed =
     (let html = or_empty (pm_html parsed);
          text = or_empty (pm_text parsed)
      in if html \<noteq> [] then htmlToText out html else text)"

definition emailDoc_of ::
  "outcomes \<Rightarrow> ParsedMail \<Rightarrow> EmailAccount \<Rightarrow> string \<Rightarrow> string \<Rightarrow> string \<Rightarrow> EmailDocument" where
  "emailDoc_of out parsed account folder emailId rawMessageId =
     \<lparr>doc_id = emailId,
      doc_accountId = acc_id account,
      doc_folder = folder,
      doc_subject = (if truthy (pm_subject parsed) then or_empty (pm_subject parsed)
                     else ''(No Subject)''),
      doc_body = bodyText out parsed,
      doc_htmlBody = pm_html parsed,
      doc_from = fromText parsed,
      doc_to = getAddresses (pm_to parsed),
      doc_cc = (case ccText parsed of
                  Some cc \<Rightarrow> (if length cc > 0 then Some cc else None)
                | None \<Rightarrow> None),
      doc_date = (case pm_date parsed of Some d \<Rightarrow> d | None \<Rightarrow> now out),
      doc_aiCategory = ''Uncategorized'',
      doc_indexedAt = now out,
      doc_messageId = (if rawMessageId \<noteq> [] then rawMessageId else emailId),
      doc_inReplyTo = (if truthy (pm_inReplyTo parsed) then pm_inReplyTo parsed else None),
      doc_references = (case pm_references parsed of ManyReferences rs \<Rightarrow> Some rs | _ \<Rightarrow> None)\<rparr>"

definition rawMessageId_of :: "ParsedMail \<Rightarrow> string" where
  "rawMessageId_of parsed = trim (or_empty (pm_messageId parsed))"

text \<open>The body of the \<open>try\<close> block of \<open>processEmail\<close>; \<open>Inl\<close> is an error thrown in it.\<close>

definition processEmail_try ::
  "Config \<Rightarrow> outcomes \<Rightarrow> ParsedMail \<Rightarrow> EmailAccount \<Rightarrow> string \<Rightarrow> world \<Rightarrow> (error + unit) \<times> world" where
  "processEmail_try cfg out parsed account folder w =
     (let rawMessageId = rawMessageId_of parsed;
          chk = (if rawMessageId \<noteq> [] then existsByMessageId out rawMessageId w else (False, w))
      in if rawMessageId \<noteq> [] \<and> fst chk
         then (Inr (), log (snd chk) (LogDuplicate rawMessageId (acc_email account)))
         else
           (let emailId = uuid out;
                emailDoc = emailDoc_of out parsed account folder emailId rawMessageId
            in case indexEmail out emailDoc (snd chk) of
                 (Inl e, w2) \<Rightarrow> (Inl e, w2)
               | (Inr _, w2) \<Rightarrow>
                   (case categorizeEmail cfg out (doc_subject emailDoc) (doc_body emailDoc)
                           (doc_from emailDoc) w2 of
                      (Inl e, w3) \<Rightarrow> (Inl e, w3)
                    | (Inr categorization, w3) \<Rightarrow>
                        (case updateEmailCategory out emailId (category categorization) w3 of
                           (Inl e, w4) \<Rightarrow> (Inl e, w4)
                         | (Inr _, w4) \<Rightarrow>
                             (let emailDoc' = emailDoc\<lparr>doc_aiCategory := category categorization\<rparr>;
                                  fan = (if category categorization = ''Interested''
                                         then triggerInterestedWebhooks cfg out emailDoc' w4
                                         else (Inr (), w4))
                              in case fst fan of
                                   Inl e \<Rightarrow> (Inl e, snd fan)
                                 | Inr _ \<Rightarrow>
                                     (Inr (), log (snd fan)
                                        (LogProcessed (doc_subject emailDoc')
                                           (category categorization))))))))"

definition processEmail ::
  "Config \<Rightarrow> outcomes \<Rightarrow> ParsedMail \<Rightarrow> EmailAccount \<Rightarrow> string \<Rightarrow> world \<Rightarrow> world" where
  "processEmail cfg out parsed account folder w =
     (case processEmail_try cfg out parsed account folder w of
        (Inr _, w') \<Rightarrow> w'
      | (Inl e, w') \<Rightarrow> log w' ErrProcessingEmail)"

section \<open>IMAPService: the account session\<close>

text \<open>
  What the mail transport answers during one handler: whether the folder opens,
  the results of the two searches (\<open>None\<close> is the error of the callback), whether
  the fetch fails, and for each sequence number the message it holds, as the mail
  parser sees its source: \<open>Malformed\<close> when \<open>simpleParser\<close> throws.
  \<open>outcomes_at\<close> gives the collaborators' answers for the pipeline of that message.
\<close>

datatype message_source =
    Missing
  | Malformed
  | Wellformed ParsedMail

record imap_env =
  openBox_ok :: bool
  search_all :: "nat list option"
  search_unseen :: "nat list option"
  fetch_fails :: bool
  message_at :: "nat \<Rightarrow> message_source"
  outcomes_at :: "nat \<Rightarrow> outcomes"
  authenticated :: bool
  clock :: nat

text \<open>
  The \<open>message\<close> handlers of one fetch, in the order of the sequence numbers: each
  parses its message and runs \<open>processEmail\<close>, and settles its own promise. The
  pipelines of one batch interleave in the source; \<open>processMessages\<close> runs them one
  after the other, which is one of the schedules of \<open>run_schedule\<close> below.
\<close>

fun processMessages ::
  "Config \<Rightarrow> imap_env \<Rightarrow> EmailAccount \<Rightarrow> string \<Rightarrow> nat list \<Rightarrow> world \<Rightarrow> (error + unit) list \<times> world" where
  "processMessages cfg env account folder [] w = ([], w)"
| "processMessages cfg env account folder (seqno # rest) w =
     (case message_at env seqno of
        Missing \<Rightarrow> processMessages cfg env account folder rest w
      | Malformed \<Rightarrow>
          (case processMessages cfg env account folder rest (log w ErrFetchedEmail) of
             (rs, w') \<Rightarrow> (Inl ParseError # rs, w'))
      | Wellformed parsed \<Rightarrow>
          (case processMessages cfg env account folder rest
                  (processEmail cfg (outcomes_at env seqno) parsed account folder w) of
             (rs, w') \<Rightarrow> (Inr () # rs, w')))"

definition fetchEmailsBySeqNo ::
  "Config \<Rightarrow> imap_env \<Rightarrow> EmailAccount \<Rightarrow> nat list \<Rightarrow> string \<Rightarrow> world \<Rightarrow> (error + unit) \<times> world" where
  "fetchEmailsBySeqNo cfg env account seqNos folder w =
     (if fetch_fails env then (Inl ImapError, log w ErrFetch)
      else (case processMessages cfg env account folder seqNos w of
              (emailPromises, w') \<Rightarrow> (promise_all emailPromises, w')))"

definition performInitialSync ::
  "Config \<Rightarrow> imap_env \<Rightarrow> EmailAccount \<Rightarrow> world \<Rightarrow> (error + unit) \<times> world" where
  "performInitialSync cfg env account w =
     (if \<not> openBox_ok env then (Inl ImapError, w)
      else
        (let w1 = log w (LogStartingInitialSync (acc_email account))
         in case search_all env of
              None \<Rightarrow> (Inl ImapError, w1)
            | Some results \<Rightarrow>
                (if length results = 0 then (Inr (), log w1 (LogNoEmails (acc_email account)))
                 else
                   (let limitedResults = slice (- 10) None results;
                        w2 = log w1 (LogFound (length results) (length limitedResults)
                                       (acc_email account))
                    in case fetchEmailsBySeqNo cfg env account limitedResults ''INBOX'' w2 of
                         (Inl e, w3) \<Rightarrow> (Inl e, w3)
                       | (Inr _, w3) \<Rightarrow>
                           (Inr (), log w3 (LogInitialSyncCompleted (acc_email account)))))))"

text \<open>
  The pipelines of one batch as they interleave. Each \<open>message\<close> handler is a
  pipeline that is suspended at an \<open>await\<close>: parsing its buffer (\<open>None\<close> is a
  buffer on which \<open>simpleParser\<close> throws), waiting for the lookup by message
  identifier, for the insert, for the classification, for the update of the category
  or for the fanout; or it has settled, skipped as a duplicate, processed, with an
  error caught by \<open>processEmail\<close>, or with its promise rejected by a parse error.
\<close>

datatype outcome =
    ParseFailed
  | WasDuplicate
  | WasCaught
  | WasProcessed AICategory

datatype pipeline =
    Parsing "ParsedMail option"
  | Looking ParsedMail
  | Indexing ParsedMail
  | Classifying ParsedMail
  | Updating ParsedMail AICategorizationResponse
  | Notifying ParsedMail AICategorizationResponse
  | Settled outcome

text \<open>
  One resumption of a pipeline: the request it awaits is answered on the world as it
  is then, and the pipeline runs to its next \<open>await\<close> or to its end. The lookup is
  awaited only when the message has an identifier, the fanout only when the category
  is \<open>Interested\<close>. The fanout of one pipeline is taken as one step: it touches
  neither the index nor the classifier.
\<close>

fun advance ::
  "Config \<Rightarrow> outcomes \<Rightarrow> EmailAccount \<Rightarrow> string \<Rightarrow> pipeline \<Rightarrow> world \<Rightarrow> pipeline \<times> world" where
  "advance cfg out account folder (Parsing None) w =
     (Settled ParseFailed, log w ErrFetchedEmail)"
| "advance cfg out account folder (Parsing (Some parsed)) w =
     (if rawMessageId_of parsed \<noteq> [] then (Looking parsed, w) else (Indexing parsed, w))"
| "advance cfg out account folder (Looking parsed) w =
     (case existsByMessageId out (rawMessageId_of parsed) w of
        (exists, w1) \<Rightarrow>
          (if exists
           then (Settled WasDuplicate,
                 log w1 (LogDuplicate (rawMessageId_of parsed) (acc_email account)))
           else (Indexing parsed, w1)))"
| "advance cfg out account folder (Indexing parsed) w =
     (let emailDoc = emailDoc_of out parsed account folder (uuid out) (rawMessageId_of parsed)
      in case indexEmail out emailDoc w of
           (Inl e, w2) \<Rightarrow> (Settled WasCaught, log w2 ErrProcessingEmail)
         | (Inr _, w2) \<Rightarrow> (Classifying parsed, w2))"
| "advance cfg out account folder (Classifying parsed) w =
     (let emailDoc = emailDoc_of out parsed account folder (uuid out) (rawMessageId_of parsed)
      in case categorizeEmail cfg out (doc_subject emailDoc) (doc_body emailDoc)
                (doc_from emailDoc) w of
           (Inl e, w3) \<Rightarrow> (Settled WasCaught, log w3 ErrProcessingEmail)
         | (Inr categorization, w3) \<Rightarrow> (Updating parsed categorization, w3))"
| "advance cfg out account folder (Updating parsed categorization) w =
     (let emailDoc = emailDoc_of out parsed account folder (uuid out) (rawMessageId_of parsed)
      in case updateEmailCategory out (uuid out) (category categorization) w of
           (Inl e, w4) \<Rightarrow> (Settled WasCaught, log w4 ErrProcessingEmail)
         | (Inr _, w4) \<Rightarrow>
             (if category categorization = ''Interested''
              then (Notifying parsed categorization, w4)
              else (Settled (WasProcessed (category categorization)),
                    log w4 (LogProcessed (doc_subject emailDoc) (category categorization)))))"
| "advance cfg out account folder (Notifying parsed categorization) w =
     (let emailDoc = emailDoc_of out parsed account folder (uuid out) (rawMessageId_of parsed);
          emailDoc' = emailDoc\<lparr>doc_aiCategory := category categorization\<rparr>
      in case triggerInterestedWebhooks cfg out emailDoc' w of
           (Inl e, w5) \<Rightarrow> (Settled WasCaught, log w5 ErrProcessingEmail)
         | (Inr _, w5) \<Rightarrow>
             (Settled (WasProcessed (category categorization)),
              log w5 (LogProcessed (doc_subject emailDoc') (category categorization))))"
| "advance cfg out account folder (Settled r) w = (Settled r, w)"

text \<open>
  A batch is the list of its pipelines, each with the sequence number of its message,
  and the world they share. \<open>startBatch\<close> is the batch after the \<open>message\<close> events of
  a fetch; \<open>resume\<close> lets the pipeline of the given position take one step, and a
  schedule is the list of the positions resumed, in order.
\<close>

record batch =
  pipelines :: "(nat \<times> pipeline) list"
  shared :: world

definition startBatch :: "imap_env \<Rightarrow> nat list \<Rightarrow> world \<Rightarrow> batch" where
  "startBatch env seqNos w =
     \<lparr>pipelines =
        map (\<lambda>seqno. (seqno, Parsing (case message_at env seqno of
                                         Wellformed parsed \<Rightarrow> Some parsed
                                       | _ \<Rightarrow> None)))
          (filter (\<lambda>seqno. message_at env seqno \<noteq> Missing) seqNos),
      shared = w\<rparr>"

definition resume :: "Config \<Rightarrow> imap_env \<Rightarrow> EmailAccount \<Rightarrow> string \<Rightarrow> nat \<Rightarrow> batch \<Rightarrow> batch" where
  "resume cfg env account folder i b =
     (if i < length (pipelines b)
      then (case pipelines b ! i of
              (seqno, p) \<Rightarrow>
                (case advance cfg (outcomes_at env seqno) account folder p (shared b) of
                   (p', w') \<Rightarrow> \<lparr>pipelines = (pipelines b)[i := (seqno, p')], shared = w'\<rparr>))
      else b)"

definition run_schedule ::
  "Config \<Rightarrow> imap_env \<Rightarrow> EmailAccount \<Rightarrow> string \<Rightarrow> nat list \<Rightarrow> batch \<Rightarrow> batch" where
  "run_schedule cfg env account folder sched b = fold (resume cfg env account folder) sched b"




text \<open>
  The \<open>mail\<close> handler: the search callback is not awaited and nothing catches a
  rejection of its fetch, so only the world it leaves is returned.
\<close>

definition onMail :: "Config \<Rightarrow> imap_env \<Rightarrow> EmailAccount \<Rightarrow> nat \<Rightarrow> world \<Rightarrow> world" where
  "onMail cfg env account numNewMsgs w =
     (let w1 = log w (LogNewMail numNewMsgs (acc_email account))
      in case search_unseen env of
           None \<Rightarrow> log w1 ErrSearchNew
         | Some results \<Rightarrow>
             (if length results = 0 then w1
              else
                (let latestSeqNo = last results
                 in snd (fetchEmailsBySeqNo cfg env account [latestSeqNo] ''INBOX'' w1))))"

definition attempts_of :: "world \<Rightarrow> EmailAccount \<Rightarrow> nat" where
  "attempts_of w account =
     (case reconnectAttempts w (acc_id account) of None \<Rightarrow> 0 | Some a \<Rightarrow> a)"

text \<open>The \<open>delay\<close> of \<open>scheduleReconnect\<close>.\<close>

definition reconnect_delay :: "Config \<Rightarrow> nat \<Rightarrow> jsnum" where
  "reconnect_delay cfg attempts =
     js_min (times_pow2 (cfg_reconnectDelay cfg) attempts) (Num 60000)"

text \<open>\<open>setTimeout\<close> appends the account and the delay to \<open>timers\<close>.\<close>

definition scheduleReconnect :: "Config \<Rightarrow> EmailAccount \<Rightarrow> world \<Rightarrow> world" where
  "scheduleReconnect cfg account w =
     (let attempts = attempts_of w account
      in if counter_ge attempts (cfg_maxReconnectAttempts cfg)
         then log w (LogMaxReconnect (acc_email account))
         else
           (let delay = reconnect_delay cfg attempts;
                w1 = log w (LogReconnecting (acc_email account) delay (next_attempt attempts));
                w2 = w1\<lparr>reconnectAttempts :=
                        (reconnectAttempts w1)(acc_id account \<mapsto> next_attempt attempts)\<rparr>
            in w2\<lparr>timers := timers w2 @ [(acc_id account, delay)]\<rparr>))"

text \<open>The \<open>error\<close> and \<open>end\<close> handlers.\<close>

definition onError :: "Config \<Rightarrow> imap_env \<Rightarrow> EmailAccount \<Rightarrow> string \<Rightarrow> world \<Rightarrow> world" where
  "onError cfg env account message w =
     scheduleReconnect cfg account
       (w\<lparr>connectionStatus := (connectionStatus w)(acc_id account \<mapsto>
             \<lparr>st_accountId = acc_id account, st_connected = False,
              st_lastSync = clock env, st_error = Some message\<rparr>)\<rparr>)"

definition onEnd :: "Config \<Rightarrow> imap_env \<Rightarrow> EmailAccount \<Rightarrow> world \<Rightarrow> world" where
  "onEnd cfg env account w =
     scheduleReconnect cfg account
       (w\<lparr>connectionStatus := (connectionStatus w)(acc_id account \<mapsto>
             \<lparr>st_accountId = acc_id account, st_connected = False,
              st_lastSync = clock env, st_error = None\<rparr>)\<rparr>)"

section \<open>Auxiliary notions for the properties\<close>

text \<open>The entries of an address field, in order: what \<open>getAddresses\<close> is compared with.\<close>

fun field_entries :: "address_field \<Rightarrow> EmailAddress list" where
  "field_entries Absent = []"
| "field_entries (One item) = (case ao_value item of Some vs \<Rightarrow> vs | None \<Rightarrow> [])"
| "field_entries (Several items) =
     concat (map (\<lambda>item. case ao_value item of Some vs \<Rightarrow> vs | None \<Rightarrow> []) items)"

text \<open>
  What a call appended to the log and to the posts, the part of the world only the
  session handlers write, and the events the webhook service may log.
\<close>

definition new_logs :: "world \<Rightarrow> world \<Rightarrow> log_event list" where
  "new_logs w w' = drop (length (logs w)) (logs w')"

definition new_posts :: "world \<Rightarrow> world \<Rightarrow> (string \<times> jv) list" where
  "new_posts w w' = drop (length (posts w)) (posts w')"

definition grows :: "(log_event \<Rightarrow> bool) \<Rightarrow> world \<Rightarrow> world \<Rightarrow> bool" where
  "grows P w w' = (logs w' = logs w @ new_logs w w' \<and> list_all P (new_logs w w'))"

definition imap_state ::
  "world \<Rightarrow> (string \<rightharpoonup> nat) \<times> (string \<rightharpoonup> IMAPConnectionStatus) \<times> (string \<times> jsnum) list \<times> string list" where
  "imap_state w = (reconnectAttempts w, connectionStatus w, timers w, watchdogs w)"

definition wh_frame :: "world \<Rightarrow> world \<Rightarrow> bool" where
  "wh_frame w w' =
     (es_docs w' = es_docs w \<and> ai_calls w' = ai_calls w \<and> imap_state w' = imap_state w)"

definition webhook_event :: "Config \<Rightarrow> log_event \<Rightarrow> bool" where
  "webhook_event cfg e =
     (case e of
        LogTriggering _ \<Rightarrow> True
      | LogAllTriggered \<Rightarrow> True
      | ErrTriggering \<Rightarrow> True
      | WarnSlackNotConfigured \<Rightarrow> True
      | LogSlackSent \<Rightarrow> True
      | ErrSlack \<Rightarrow> True
      | WarnGenericNotConfigured \<Rightarrow> True
      | LogGenericTriggered \<Rightarrow> True
      | WarnRateLimited _ \<Rightarrow> True
      | ErrWebhook _ \<Rightarrow> True
      | WarnNoUrls \<Rightarrow> True
      | LogBroadcast s n \<Rightarrow>
          truthy (cfg_generic cfg) \<and> s \<le> n
          \<and> n = length (broadcast_urls cfg (or_empty (cfg_generic cfg)))
      | _ \<Rightarrow> False)"

definition configured_destinations :: "Config \<Rightarrow> string list" where
  "configured_destinations cfg =
     (if truthy (cfg_slack cfg) then [or_empty (cfg_slack cfg)] else [])
     @ (if truthy (cfg_generic cfg)
        then or_empty (cfg_generic cfg) # broadcast_urls cfg (or_empty (cfg_generic cfg))
        else [])"

text \<open>
  The stages of one run of \<open>processEmail\<close>: whether the gate skips the message, the
  world after the lookup, the record built for the message, the world after the
  insert and after the classification, and the category the client returns.
\<close>

definition is_duplicate :: "outcomes \<Rightarrow> ParsedMail \<Rightarrow> world \<Rightarrow> bool" where
  "is_duplicate out parsed w =
     (rawMessageId_of parsed \<noteq> []
      \<and> fst (existsByMessageId out (rawMessageId_of parsed) w))"

definition after_check :: "outcomes \<Rightarrow> ParsedMail \<Rightarrow> world \<Rightarrow> world" where
  "after_check out parsed w =
     (if rawMessageId_of parsed \<noteq> [] then snd (existsByMessageId out (rawMessageId_of parsed) w)
      else w)"

definition new_doc :: "outcomes \<Rightarrow> ParsedMail \<Rightarrow> EmailAccount \<Rightarrow> string \<Rightarrow> EmailDocument" where
  "new_doc out parsed account folder =
     emailDoc_of out parsed account folder (uuid out) (rawMessageId_of parsed)"

definition after_index ::
  "outcomes \<Rightarrow> ParsedMail \<Rightarrow> EmailAccount \<Rightarrow> string \<Rightarrow> world \<Rightarrow> world" where
  "after_index out parsed account folder w =
     (after_check out parsed w)
       \<lparr>es_docs := es_put (new_doc out parsed account folder) (es_docs (after_check out parsed w))\<rparr>"

definition after_classify ::
  "Config \<Rightarrow> outcomes \<Rightarrow> ParsedMail \<Rightarrow> EmailAccount \<Rightarrow> string \<Rightarrow> world \<Rightarrow> world" where
  "after_classify cfg out parsed account folder w =
     snd (categorizeEmail cfg out
            (doc_subject (new_doc out parsed account folder))
            (doc_body (new_doc out parsed account folder))
            (doc_from (new_doc out parsed account folder))
            (after_index out parsed account folder w))"

definition classification :: "Config \<Rightarrow> outcomes \<Rightarrow> AICategory" where
  "classification cfg out =
     (if \<not> cfg_aiConfigured cfg then ''Uncategorized''
      else (case ai_reply out of
              AiJson j \<Rightarrow>
                (case jfield ''category'' j of
                   Some (JStr c) \<Rightarrow> (if c \<in> set validCategories then c else ''Uncategorized'')
                 | _ \<Rightarrow> ''Uncategorized'')
            | _ \<Rightarrow> ''Uncategorized''))"

definition set_category :: "string \<Rightarrow> AICategory \<Rightarrow> EmailDocument list \<Rightarrow> EmailDocument list" where
  "set_category i c ds = map (\<lambda>x. if doc_id x = i then x\<lparr>doc_aiCategory := c\<rparr> else x) ds"

definition after_update ::
  "Config \<Rightarrow> outcomes \<Rightarrow> ParsedMail \<Rightarrow> EmailAccount \<Rightarrow> string \<Rightarrow> world \<Rightarrow> world" where
  "after_update cfg out parsed account folder w =
     (after_classify cfg out parsed account folder w)
       \<lparr>es_docs := set_category (uuid out) (classification cfg out)
                     (es_docs (after_classify cfg out parsed account folder w))\<rparr>"




text \<open>
  The effects of a call apart from its log lines: the index, the classifier calls,
  the posts and the session state.
\<close>

definition effects ::
  "world \<Rightarrow> EmailDocument list \<times> string list \<times> (string \<times> jv) list
            \<times> (string \<rightharpoonup> nat) \<times> (string \<rightharpoonup> IMAPConnectionStatus) \<times> (string \<times> jsnum) list \<times> string list" where
  "effects w = (es_docs w, ai_calls w, posts w, imap_state w)"

text \<open>A record of the given id with a category of the six-value set.\<close>

definition has_record :: "string \<Rightarrow> EmailDocument list \<Rightarrow> bool" where
  "has_record i ds = list_ex (\<lambda>d. doc_id d = i \<and> doc_aiCategory d \<in> set validCategories) ds"


fun inserted :: "outcomes \<Rightarrow> pipeline \<Rightarrow> bool" where
  "inserted out (Classifying _) = True"
| "inserted out (Updating _ _) = True"
| "inserted out (Notifying _ _) = True"
| "inserted out (Settled (WasProcessed _)) = True"
| "inserted out (Settled WasCaught) = index_ok out"
| "inserted out _ = False"

fun consistent :: "Config \<Rightarrow> outcomes \<Rightarrow> message_source \<Rightarrow> pipeline \<Rightarrow> bool" where
  "consistent cfg out src (Parsing buf) =
     (src \<noteq> Missing \<and> buf = (case src of Wellformed parsed \<Rightarrow> Some parsed | _ \<Rightarrow> None))"
| "consistent cfg out src (Looking parsed) = (src = Wellformed parsed \<and> rawMessageId_of parsed \<noteq> [])"
| "consistent cfg out src (Indexing parsed) = (src = Wellformed parsed)"
| "consistent cfg out src (Classifying parsed) = (src = Wellformed parsed \<and> index_ok out)"
| "consistent cfg out src (Updating parsed c) =
     (src = Wellformed parsed \<and> index_ok out \<and> category c = classification cfg out)"
| "consistent cfg out src (Notifying parsed c) =
     (src = Wellformed parsed \<and> index_ok out \<and> update_ok out
      \<and> category c = classification cfg out \<and> category c = ''Interested'')"
| "consistent cfg out src (Settled ParseFailed) = (src = Malformed)"
| "consistent cfg out src (Settled WasDuplicate) =
     (\<exists>parsed. src = Wellformed parsed \<and> rawMessageId_of parsed \<noteq> [] \<and> search_ok out)"
| "consistent cfg out src (Settled WasCaught) =
     (\<exists>parsed. src = Wellformed parsed \<and> \<not> (index_ok out \<and> update_ok out))"
| "consistent cfg out src (Settled (WasProcessed c)) =
     (\<exists>parsed. src = Wellformed parsed \<and> index_ok out \<and> update_ok out
               \<and> c = classification cfg out)"

definition batch_ok :: "Config \<Rightarrow> imap_env \<Rightarrow> batch \<Rightarrow> bool" where
  "batch_ok cfg env b =
     (\<forall>(seqno, p) \<in> set (pipelines b).
        consistent cfg (outcomes_at env seqno) (message_at env seqno) p
        \<and> (inserted (outcomes_at env seqno) p
             \<longrightarrow> has_record (uuid (outcomes_at env seqno)) (es_docs (shared b))))"

fun advances ::
  "Config \<Rightarrow> outcomes \<Rightarrow> EmailAccount \<Rightarrow> string \<Rightarrow> nat \<Rightarrow> pipeline \<times> world \<Rightarrow> pipeline \<times> world" where
  "advances cfg out account folder 0 x = x"
| "advances cfg out account folder (Suc k) x =
     advances cfg out account folder k (advance cfg out account folder (fst x) (snd x))"

definition outcome_of :: "Config \<Rightarrow> outcomes \<Rightarrow> ParsedMail \<Rightarrow> world \<Rightarrow> outcome" where
  "outcome_of cfg out parsed w =
     (if is_duplicate out parsed w then WasDuplicate
      else if index_ok out \<and> update_ok out then WasProcessed (classification cfg out)
      else WasCaught)"

definition in_order :: "nat \<Rightarrow> nat list" where
  "in_order k = concat (map (replicate 6) [0..<k])"

definition in_turn :: "nat \<Rightarrow> nat list" where
  "in_turn k = concat (replicate 6 [0..<k])"

section \<open>Sample inputs\<close>

text \<open>
  Concrete configurations, answers of the collaborators, messages and worlds, on which
  the properties below are instantiated.
\<close>

definition sample_cfg :: Config where
  "sample_cfg =
     \<lparr>cfg_port = 3000, cfg_appBaseUrl = None, cfg_maxReconnectAttempts = Num 10,
      cfg_reconnectDelay = Num 5000, cfg_aiConfigured = True,
      cfg_interestedUrls = [''http://a.example'', ''http://b.example''],
      cfg_slack = Some ''http://slack.example'', cfg_generic = Some ''http://hook.example''\<rparr>"

definition sample_out :: outcomes where
  "sample_out =
     \<lparr>search_ok = True, index_ok = True, update_ok = True,
      ai_reply = AiJson (JObj [(''category'', JStr ''Interested'')]),
      post_result = (\<lambda>u. if u = ''http://a.example'' then HttpStatus 429 else Delivered),
      uuid = ''uuid-1'', now = 7, htmlToText = (\<lambda>h. h)\<rparr>"

definition empty_world :: world where
  "empty_world =
     \<lparr>es_docs = [], ai_calls = [], posts = [], logs = [],
      reconnectAttempts = Map.empty, connectionStatus = Map.empty,
      timers = [], watchdogs = []\<rparr>"

definition sample_to :: address_field where
  "sample_to = One \<lparr>ao_value = Some [\<lparr>ea_name = ''Undisclosed'', ea_address = None\<rparr>,
                                      \<lparr>ea_name = ''Bob'', ea_address = Some ''bob@x.example''\<rparr>]\<rparr>"

definition sample_doc :: EmailDocument where
  "sample_doc =
     \<lparr>doc_id = ''uuid-1'', doc_accountId = ''acc1'', doc_folder = ''INBOX'',
      doc_subject = ''Offer'', doc_body = replicate 400 (CHR ''x''),
      doc_htmlBody = Some ''<p>hi</p>'', doc_from = ''a@b.example'',
      doc_to = [''1'', ''2'', ''3'', ''4'', ''5'', ''6'', ''7''],
      doc_cc = Some [''1'', ''2'', ''3'', ''4'', ''5'', ''6''],
      doc_date = 1, doc_aiCategory = ''Interested'', doc_indexedAt = 2,
      doc_messageId = ''<m1@x.example>'', doc_inReplyTo = None, doc_references = None\<rparr>"

definition sample_account :: EmailAccount where
  "sample_account =
     \<lparr>acc_id = ''acc1'', acc_email = ''me@x.example'', acc_password = ''secret'',
      acc_imapHost = ''imap.x.example'', acc_imapPort = 993\<rparr>"

definition sample_parsed :: ParsedMail where
  "sample_parsed =
     \<lparr>pm_messageId = Some '' <m1@x.example> '', pm_html = None, pm_text = Some ''Hello'',
      pm_subject = Some ''Offer'', pm_from = sample_to, pm_to = sample_to, pm_cc = Absent,
      pm_date = Some 5, pm_inReplyTo = None, pm_references = NoReferences\<rparr>"

definition dup_world :: world where
  "dup_world = empty_world\<lparr>es_docs := [sample_doc\<lparr>doc_id := ''uuid-0''\<rparr>]\<rparr>"

definition sample_env :: imap_env where
  "sample_env =
     \<lparr>openBox_ok = True, search_all = Some [3, 4], search_unseen = Some [3, 4],
      fetch_fails = False,
      message_at = (\<lambda>n. if n = 3 then Malformed
                         else Wellformed (sample_parsed\<lparr>pm_messageId := Some ''<m2@x.example>''\<rparr>)),
      outcomes_at = (\<lambda>n. sample_out),
      authenticated = True, clock = 9\<rparr>"

definition live_env :: imap_env where
  "live_env =
     sample_env\<lparr>message_at := (\<lambda>n. Wellformed (sample_parsed\<lparr>pm_messageId :=
                    Some (if n = 3 then ''<m1@x.example>'' else ''<m2@x.example>'')\<rparr>))\<rparr>"



definition twin_env :: imap_env where
  "twin_env =
     sample_env\<lparr>search_all := Some [3, 4],
                message_at := (\<lambda>n. Wellformed sample_parsed),
                outcomes_at := (\<lambda>n. sample_out\<lparr>uuid := ''uuid-'' @ show_nat n\<rparr>)\<rparr>"


section \<open>Properties\<close>

lemma validCategories_Uncategorized: "''Uncategorized'' \<in> set validCategories"
  by (simp add: validCategories_def)

subsection \<open>The classification client\<close>

lemma categorize_try_valid:
  "categorize_try out subject body sender w = (Inr r, w') \<Longrightarrow> category r \<in> set validCategories"
  by (auto simp: categorize_try_def Let_def validCategories_Uncategorized
      split: ai_outcome.splits jv.splits option.splits if_splits)

lemma categorizeEmail_Inr:
  "\<exists>r w'. categorizeEmail cfg out subject body sender w = (Inr r, w')
          \<and> category r \<in> set validCategories"
proof (cases "cfg_aiConfigured cfg")
  case False
  then show ?thesis
    by (simp add: categorizeEmail_def validCategories_Uncategorized)
next
  case True
  obtain res w1 where t: "categorize_try out subject body sender w = (res, w1)"
    by (cases "categorize_try out subject body sender w")
  show ?thesis
  proof (cases res)
    case (Inl e)
    with True t show ?thesis
      by (simp add: categorizeEmail_def validCategories_Uncategorized)
  next
    case (Inr r)
    with True t categorize_try_valid[of out subject body sender w r w1] show ?thesis
      by (simp add: categorizeEmail_def)
  qed
qed

text \<open>
  C2. For every input, \<open>categorizeEmail\<close> returns normally (never an error) with a
  category of the six-value set; when the model is not configured, the request throws,
  the reply is not JSON, or the reply's category is not one of the six strings, the
  category is \<open>Uncategorized\<close>; a recognised category is returned as it is.
\<close>

theorem categorizeEmail_always_valid:
  "(\<exists>r w'. categorizeEmail cfg out subject body sender w = (Inr r, w')
            \<and> category r \<in> set validCategories)
   \<and> ((\<not> cfg_aiConfigured cfg \<or> ai_reply out = AiThrows \<or> ai_reply out = AiBadJson
        \<or> (\<exists>j. ai_reply out = AiJson j
               \<and> jfield ''category'' j \<notin> (\<lambda>c. Some (JStr c)) ` set validCategories))
       \<longrightarrow> fst (categorizeEmail cfg out subject body sender w) = Inr \<lparr>category = ''Uncategorized''\<rparr>)
   \<and> (\<forall>j c. cfg_aiConfigured cfg \<and> ai_reply out = AiJson j
          \<and> jfield ''category'' j = Some (JStr c) \<and> c \<in> set validCategories
       \<longrightarrow> fst (categorizeEmail cfg out subject body sender w) = Inr \<lparr>category = c\<rparr>)"
proof (intro conjI)
  show "\<exists>r w'. categorizeEmail cfg out subject body sender w = (Inr r, w')
            \<and> category r \<in> set validCategories"
    by (rule categorizeEmail_Inr)
next
  show "(\<not> cfg_aiConfigured cfg \<or> ai_reply out = AiThrows \<or> ai_reply out = AiBadJson
        \<or> (\<exists>j. ai_reply out = AiJson j
               \<and> jfield ''category'' j \<notin> (\<lambda>c. Some (JStr c)) ` set validCategories))
       \<longrightarrow> fst (categorizeEmail cfg out subject body sender w) = Inr \<lparr>category = ''Uncategorized''\<rparr>"
    by (auto simp: categorizeEmail_def categorize_try_def Let_def jfield_def
        split: ai_outcome.splits jv.splits option.splits if_splits)
next
  show "\<forall>j c. cfg_aiConfigured cfg \<and> ai_reply out = AiJson j
          \<and> jfield ''category'' j = Some (JStr c) \<and> c \<in> set validCategories
       \<longrightarrow> fst (categorizeEmail cfg out subject body sender w) = Inr \<lparr>category = c\<rparr>"
    by (auto simp: categorizeEmail_def categorize_try_def Let_def jfield_def validCategories_def
        split: ai_outcome.splits jv.splits option.splits if_splits)
qed

theorem categorizeEmail_always_valid_witness:
  "fst (categorizeEmail sample_cfg (sample_out\<lparr>ai_reply := AiJson (JObj [(''category'', JStr ''Maybe'')])\<rparr>)
          ''Hello'' ''Body'' ''a@b.example'' empty_world) = Inr \<lparr>category = ''Uncategorized''\<rparr>
   \<and> fst (categorizeEmail sample_cfg sample_out ''Hello'' ''Body'' ''a@b.example'' empty_world)
       = Inr \<lparr>category = ''Interested''\<rparr>"
  using categorizeEmail_always_valid
          [of sample_cfg "sample_out\<lparr>ai_reply := AiJson (JObj [(''category'', JStr ''Maybe'')])\<rparr>"
              "''Hello''" "''Body''" "''a@b.example''" empty_world]
        categorizeEmail_always_valid
          [of sample_cfg sample_out "''Hello''" "''Body''" "''a@b.example''" empty_world]
  by (simp add: sample_cfg_def sample_out_def jfield_def validCategories_def)

subsection \<open>The address lists of the normalizer\<close>

lemma value_addresses_map:
  "value_addresses item = map address_or_empty (case ao_value item of Some vs \<Rightarrow> vs | None \<Rightarrow> [])"
  by (simp add: value_addresses_def split: option.splits)

lemma getAddresses_map: "getAddresses f = map address_or_empty (field_entries f)"
proof (cases f)
  case Absent
  then show ?thesis by simp
next
  case (One item)
  then show ?thesis by (simp add: value_addresses_map)
next
  case (Several items)
  have "concat (map value_addresses items)
        = map address_or_empty (concat (map (\<lambda>item. case ao_value item of Some vs \<Rightarrow> vs | None \<Rightarrow> []) items))"
    by (induction items) (simp_all add: value_addresses_map)
  with Several show ?thesis by simp
qed

text \<open>
  C9 (amended). \<open>getAddresses\<close> yields one string per entry of the field, in
  order: the entry's address, or the empty string when the entry has none. Nothing is
  dropped and display names are not read. The record takes \<open>to\<close> as that list,
  \<open>from\<close> as its first element (or the empty string) and \<open>cc\<close> only when the
  list is not empty.
\<close>

theorem getAddresses_keeps_every_entry:
  "length (getAddresses f) = length (field_entries f)
   \<and> (\<forall>i < length (field_entries f).
        getAddresses f ! i = (case ea_address (field_entries f ! i) of Some a \<Rightarrow> a | None \<Rightarrow> []))
   \<and> doc_to (emailDoc_of out parsed account folder emailId raw) = getAddresses (pm_to parsed)
   \<and> doc_from (emailDoc_of out parsed account folder emailId raw)
       = (case getAddresses (pm_from parsed) of [] \<Rightarrow> [] | a # _ \<Rightarrow> a)
   \<and> doc_cc (emailDoc_of out parsed account folder emailId raw)
       = (if getAddresses (pm_cc parsed) = [] then None else Some (getAddresses (pm_cc parsed)))"
proof (intro conjI)
  show "length (getAddresses f) = length (field_entries f)"
    by (simp add: getAddresses_map)
  show "\<forall>i < length (field_entries f).
        getAddresses f ! i = (case ea_address (field_entries f ! i) of Some a \<Rightarrow> a | None \<Rightarrow> [])"
    by (simp add: getAddresses_map address_or_empty_def or_empty_def)
  show "doc_to (emailDoc_of out parsed account folder emailId raw) = getAddresses (pm_to parsed)"
    by (simp add: emailDoc_of_def)
  show "doc_from (emailDoc_of out parsed account folder emailId raw)
       = (case getAddresses (pm_from parsed) of [] \<Rightarrow> [] | a # _ \<Rightarrow> a)"
    by (cases "pm_from parsed") (simp_all add: emailDoc_of_def fromText_def)
  show "doc_cc (emailDoc_of out parsed account folder emailId raw)
       = (if getAddresses (pm_cc parsed) = [] then None else Some (getAddresses (pm_cc parsed)))"
    by (cases "pm_cc parsed") (simp_all add: emailDoc_of_def ccText_def)
qed

theorem getAddresses_keeps_every_entry_witness:
  "(0::nat) < length (field_entries sample_to) \<and> getAddresses sample_to ! 0 = []
   \<and> length (getAddresses sample_to) = 2"
  using getAddresses_keeps_every_entry[of sample_to]
  by (simp add: sample_to_def)

text \<open>
  An entry without an address is not dropped: it is included as the empty string.
\<close>

theorem getAddresses_drops_nothing_counterexample:
  "getAddresses sample_to = [[], ''bob@x.example'']"
  by (simp add: sample_to_def value_addresses_def address_or_empty_def or_empty_def)

subsection \<open>The generic webhook payload\<close>

lemma postSafely_posts: "posts (snd (postSafely out u p w)) = posts w @ [(u, p)]"
  by (simp add: postSafely_def Let_def log_def split: post_outcome.splits)

lemma broadcast_posts:
  "posts (snd (broadcast out p us w)) = posts w @ map (\<lambda>u. (u, p)) us"
proof (induction us arbitrary: w)
  case Nil
  then show ?case by simp
next
  case (Cons u us)
  obtain ok w1 where a: "postSafely out u p w = (ok, w1)" by (cases "postSafely out u p w")
  obtain oks w2 where b: "broadcast out p us w1 = (oks, w2)" by (cases "broadcast out p us w1")
  from a have "posts w1 = posts w @ [(u, p)]" using postSafely_posts[of out u p w] by simp
  moreover from b have "posts w2 = posts w1 @ map (\<lambda>u. (u, p)) us" using Cons.IH[of w1] by simp
  ultimately show ?case using a b by simp
qed

lemma sendGenericWebhook_posts:
  "posts (snd (sendGenericWebhook cfg out email w)) =
     posts w @ (if truthy (cfg_generic cfg)
                then map (\<lambda>u. (u, basePayload cfg out email))
                       (or_empty (cfg_generic cfg) # broadcast_urls cfg (or_empty (cfg_generic cfg)))
                else [])"
proof (cases "truthy (cfg_generic cfg)")
  case False
  then show ?thesis by (simp add: sendGenericWebhook_def log_def)
next
  case True
  let ?g = "or_empty (cfg_generic cfg)"
  let ?p = "basePayload cfg out email"
  obtain ok w1 where a: "postSafely out ?g ?p w = (ok, w1)" by (cases "postSafely out ?g ?p w")
  then have p1: "posts w1 = posts w @ [(?g, ?p)]" using postSafely_posts[of out ?g ?p w] by simp
  let ?w2 = "if ok then log w1 LogGenericTriggered else w1"
  have p2: "posts ?w2 = posts w1" by (simp add: log_def)
  obtain rs w3 where b: "broadcast out ?p (broadcast_urls cfg ?g) ?w2 = (rs, w3)"
    by (cases "broadcast out ?p (broadcast_urls cfg ?g) ?w2")
  then have p3: "posts w3 = posts ?w2 @ map (\<lambda>u. (u, ?p)) (broadcast_urls cfg ?g)"
    using broadcast_posts[of out ?p "broadcast_urls cfg ?g" ?w2] by simp
  show ?thesis
  proof (cases "broadcast_urls cfg ?g = []")
    case e: True
    with True a p1 p2 show ?thesis
      by (simp add: sendGenericWebhook_def Let_def log_def)
  next
    case ne: False
    with True a b p1 p2 p3 show ?thesis
      by (simp add: sendGenericWebhook_def Let_def log_def)
  qed
qed

lemma slice_0_5: "slice 0 (Some 5) xs = take 5 xs"
  by (simp add: slice_def slice_index_def Let_def min_def)

lemma sanitized_body:
  "jfield ''body'' (JObj (sanitizedEmail email)) = Some (JStr (take 300 (doc_body email)))"
  by (simp add: jfield_def sanitizedEmail_def substring0_def split: option.splits)

lemma sanitized_to:
  "jfield ''to'' (JObj (sanitizedEmail email)) = Some (JArr (map JStr (take 5 (doc_to email))))"
  by (simp add: jfield_def sanitizedEmail_def slice_0_5 split: option.splits)

lemma sanitized_cc:
  "jfield ''cc'' (JObj (sanitizedEmail email)) =
     (case doc_cc email of None \<Rightarrow> None
      | Some cc \<Rightarrow> if cc = [] then None else Some (JArr (map JStr (take 5 cc))))"
  by (simp add: jfield_def sanitizedEmail_def slice_0_5 split: option.splits)

lemma sanitized_no_html: "''htmlBody'' \<notin> fst ` set (sanitizedEmail email)"
  by (auto simp: sanitizedEmail_def split: option.splits if_splits)

text \<open>
  C10. Every payload \<open>sendGenericWebhook\<close> posts carries an \<open>email\<close> object
  whose \<open>body\<close> is the first 300 characters of the email's body, whose \<open>to\<close>
  is its first 5 addresses, whose \<open>cc\<close>, when present, is the first 5 of the
  email's, and which has no \<open>htmlBody\<close> key.
\<close>

theorem generic_payload_bounded:
  "\<forall>(u, p) \<in> set (drop (length (posts w)) (posts (snd (sendGenericWebhook cfg out email w)))).
     (\<exists>e b ts. jfield ''email'' p = Some (JObj e)
        \<and> jfield ''body'' (JObj e) = Some (JStr b) \<and> length b \<le> 300
        \<and> b = take 300 (doc_body email)
        \<and> jfield ''to'' (JObj e) = Some (JArr (map JStr ts)) \<and> length ts \<le> 5
        \<and> ts = take 5 (doc_to email)
        \<and> (\<forall>c. jfield ''cc'' (JObj e) = Some c \<longrightarrow>
               (\<exists>cs. c = JArr (map JStr cs) \<and> length cs \<le> 5 \<and> doc_cc email \<noteq> None
                     \<and> cs = take 5 (the (doc_cc email))))
        \<and> ''htmlBody'' \<notin> fst ` set e)"
proof -
  have em: "jfield ''email'' (basePayload cfg out email) = Some (JObj (sanitizedEmail email))"
    by (simp add: jfield_def basePayload_def)
  have cc: "\<forall>c. jfield ''cc'' (JObj (sanitizedEmail email)) = Some c \<longrightarrow>
               (\<exists>cs. c = JArr (map JStr cs) \<and> length cs \<le> 5 \<and> doc_cc email \<noteq> None
                     \<and> cs = take 5 (the (doc_cc email)))"
    by (auto simp: sanitized_cc split: option.splits if_splits)
  have one: "\<exists>e b ts. jfield ''email'' (basePayload cfg out email) = Some (JObj e)
        \<and> jfield ''body'' (JObj e) = Some (JStr b) \<and> length b \<le> 300
        \<and> b = take 300 (doc_body email)
        \<and> jfield ''to'' (JObj e) = Some (JArr (map JStr ts)) \<and> length ts \<le> 5
        \<and> ts = take 5 (doc_to email)
        \<and> (\<forall>c. jfield ''cc'' (JObj e) = Some c \<longrightarrow>
               (\<exists>cs. c = JArr (map JStr cs) \<and> length cs \<le> 5 \<and> doc_cc email \<noteq> None
                     \<and> cs = take 5 (the (doc_cc email))))
        \<and> ''htmlBody'' \<notin> fst ` set e"
    using em cc sanitized_body[of email] sanitized_to[of email] sanitized_no_html[of email]
    by (intro exI[of _ "sanitizedEmail email"] exI[of _ "take 300 (doc_body email)"]
          exI[of _ "take 5 (doc_to email)"]) simp
  have "\<forall>(u, p) \<in> set (drop (length (posts w)) (posts (snd (sendGenericWebhook cfg out email w)))).
          p = basePayload cfg out email"
    by (auto simp: sendGenericWebhook_posts)
  with one show ?thesis by fastforce
qed

theorem generic_payload_bounded_witness:
  "(''http://hook.example'', basePayload sample_cfg sample_out sample_doc)
     \<in> set (drop (length (posts empty_world))
               (posts (snd (sendGenericWebhook sample_cfg sample_out sample_doc empty_world))))
   \<and> (\<exists>e b. jfield ''email'' (basePayload sample_cfg sample_out sample_doc) = Some (JObj e)
        \<and> jfield ''body'' (JObj e) = Some (JStr b) \<and> length b \<le> 300
        \<and> ''htmlBody'' \<notin> fst ` set e)"
proof -
  have m: "(''http://hook.example'', basePayload sample_cfg sample_out sample_doc)
     \<in> set (drop (length (posts empty_world))
               (posts (snd (sendGenericWebhook sample_cfg sample_out sample_doc empty_world))))"
    by (simp add: sendGenericWebhook_posts sample_cfg_def truthy_def or_empty_def empty_world_def)
  from generic_payload_bounded[of empty_world sample_cfg sample_out sample_doc] m
  show ?thesis by fastforce
qed

subsection \<open>Notification fanout\<close>

lemma growsI: "logs w' = logs w @ new \<Longrightarrow> list_all P new \<Longrightarrow> grows P w w'"
  by (simp add: grows_def new_logs_def)

lemma growsD: "grows P w w' \<Longrightarrow> \<exists>new. logs w' = logs w @ new \<and> list_all P new \<and> new_logs w w' = new"
  by (auto simp: grows_def)

lemma grows_refl: "grows P w w"
  by (rule growsI[of _ _ "[]"]) simp_all

lemma grows_trans: "grows P w w1 \<Longrightarrow> grows P w1 w2 \<Longrightarrow> grows P w w2"
proof -
  assume "grows P w w1" "grows P w1 w2"
  then obtain n1 n2 where "logs w1 = logs w @ n1" "list_all P n1" "logs w2 = logs w1 @ n2" "list_all P n2"
    by (auto simp: grows_def)
  then show ?thesis by (intro growsI[of _ _ "n1 @ n2"]) simp_all
qed

lemma grows_log: "P e \<Longrightarrow> grows P w (log w e)"
  by (rule growsI[of _ _ "[e]"]) (simp_all add: log_def)

lemma grows_same_logs: "logs w' = logs w \<Longrightarrow> grows P w w'"
  by (rule growsI[of _ _ "[]"]) simp_all


lemma wh_frame_refl: "wh_frame w w"
  by (simp add: wh_frame_def)

lemma wh_frame_trans: "wh_frame w w1 \<Longrightarrow> wh_frame w1 w2 \<Longrightarrow> wh_frame w w2"
  by (simp add: wh_frame_def)

lemma wh_frame_log: "wh_frame w (log w e)"
  by (simp add: wh_frame_def log_def imap_state_def)

lemma postSafely_frame: "wh_frame w (snd (postSafely out u p w))"
  by (simp add: postSafely_def Let_def log_def wh_frame_def imap_state_def split: post_outcome.splits)

lemma postSafely_grows:
  "(\<forall>u. P (WarnRateLimited u) \<and> P (ErrWebhook u)) \<Longrightarrow> grows P w (snd (postSafely out u p w))"
  by (cases "post_result out u")
     (auto simp: postSafely_def Let_def log_def intro: growsI[of _ _ "[]"] growsI[of _ _ "[e]" for e])

lemma broadcast_all:
  "wh_frame w (snd (broadcast out p us w))
   \<and> ((\<forall>u. P (WarnRateLimited u) \<and> P (ErrWebhook u)) \<longrightarrow> grows P w (snd (broadcast out p us w)))
   \<and> posts (snd (broadcast out p us w)) = posts w @ map (\<lambda>u. (u, p)) us
   \<and> length (fst (broadcast out p us w)) = length us"
proof (induction us arbitrary: w)
  case Nil
  then show ?case by (simp add: wh_frame_refl grows_refl)
next
  case (Cons u us)
  obtain ok w1 where a: "postSafely out u p w = (ok, w1)" by (cases "postSafely out u p w")
  obtain oks w2 where b: "broadcast out p us w1 = (oks, w2)" by (cases "broadcast out p us w1")
  from a have f1: "wh_frame w w1" and p1: "posts w1 = posts w @ [(u, p)]"
    and g1: "(\<forall>u. P (WarnRateLimited u) \<and> P (ErrWebhook u)) \<longrightarrow> grows P w w1"
    using postSafely_frame[of w out u p] postSafely_posts[of out u p w] postSafely_grows[of P w out u p]
    by auto
  from b Cons.IH[of w1] have f2: "wh_frame w1 w2"
    and g2: "(\<forall>u. P (WarnRateLimited u) \<and> P (ErrWebhook u)) \<longrightarrow> grows P w1 w2"
    and p2: "posts w2 = posts w1 @ map (\<lambda>u. (u, p)) us" and l2: "length oks = length us"
    by auto
  from f1 f2 have "wh_frame w w2" by (rule wh_frame_trans)
  moreover from g1 g2 have "(\<forall>u. P (WarnRateLimited u) \<and> P (ErrWebhook u)) \<longrightarrow> grows P w w2"
    by (auto intro: grows_trans)
  ultimately show ?case using a b p1 p2 l2 by simp
qed

lemmas broadcast_frame = broadcast_all[THEN conjunct1]
lemmas broadcast_length = broadcast_all[THEN conjunct2, THEN conjunct2, THEN conjunct2]

lemma broadcast_grows:
  "(\<forall>u. P (WarnRateLimited u) \<and> P (ErrWebhook u)) \<Longrightarrow> grows P w (snd (broadcast out p us w))"
  using broadcast_all[of w out p us P] by simp

lemma set_add_Nil: "set_add [] u = [u]"
  by (simp add: set_add_def)

lemma fold_set_add_length: "length (fold (\<lambda>u s. set_add s u) xs s0) \<le> length s0 + length xs"
proof (induction xs arbitrary: s0)
  case Nil
  then show ?case by simp
next
  case (Cons x xs)
  have "length (set_add s0 x) \<le> length s0 + 1" by (simp add: set_add_def)
  with Cons.IH[of "set_add s0 x"] show ?case by simp
qed

lemma fold_set_add_mono: "set s0 \<subseteq> set (fold (\<lambda>u s. set_add s u) xs s0)"
proof (induction xs arbitrary: s0)
  case Nil
  then show ?case by simp
next
  case (Cons x xs)
  have "set s0 \<subseteq> set (set_add s0 x)" by (auto simp: set_add_def)
  also have "\<dots> \<subseteq> set (fold (\<lambda>u s. set_add s u) xs (set_add s0 x))" by (rule Cons.IH)
  finally show ?case by simp
qed

lemma fold_set_add_set: "set (fold (\<lambda>u s. set_add s u) xs s0) = set s0 \<union> set xs"
  by (induction xs arbitrary: s0) (auto simp: set_add_def)

lemma broadcast_urls_length:
  assumes "truthy (cfg_generic cfg)"
  shows "length (broadcast_urls cfg (or_empty (cfg_generic cfg))) \<le> length (cfg_interestedUrls cfg)"
proof -
  let ?g = "or_empty (cfg_generic cfg)"
  let ?xs = "filter (\<lambda>u. u \<noteq> []) (cfg_interestedUrls cfg)"
  let ?s1 = "fold (\<lambda>u s. set_add s u) ?xs [?g]"
  have m: "?g \<in> set ?s1" using fold_set_add_mono[of "[?g]" ?xs] by auto
  have "length (set_delete ?s1 ?g) < length ?s1"
    unfolding set_delete_def using m by (intro length_filter_less[of ?g]) simp_all
  moreover have "length ?s1 \<le> 1 + length ?xs" using fold_set_add_length[of ?xs "[?g]"] by simp
  moreover have "length ?xs \<le> length (cfg_interestedUrls cfg)" by simp
  ultimately have "length (set_delete ?s1 ?g) \<le> length (cfg_interestedUrls cfg)" by linarith
  with assms show ?thesis by (simp add: broadcast_urls_def Let_def set_add_Nil)
qed

lemma broadcast_urls_set:
  assumes "truthy (cfg_generic cfg)"
  shows "set (broadcast_urls cfg (or_empty (cfg_generic cfg)))
         = {u \<in> set (cfg_interestedUrls cfg). u \<noteq> [] \<and> u \<noteq> or_empty (cfg_generic cfg)}"
  using assms by (auto simp: broadcast_urls_def Let_def set_delete_def fold_set_add_set set_add_Nil)

lemma sendGenericWebhook_all:
  "fst (sendGenericWebhook cfg out email w) = Inr ()
   \<and> wh_frame w (snd (sendGenericWebhook cfg out email w))
   \<and> grows (webhook_event cfg) w (snd (sendGenericWebhook cfg out email w))
   \<and> posts (snd (sendGenericWebhook cfg out email w)) =
       posts w @ (if truthy (cfg_generic cfg)
                  then map (\<lambda>u. (u, basePayload cfg out email))
                         (or_empty (cfg_generic cfg) # broadcast_urls cfg (or_empty (cfg_generic cfg)))
                  else [])"
proof (cases "truthy (cfg_generic cfg)")
  case False
  then show ?thesis
    by (simp add: sendGenericWebhook_def wh_frame_log grows_log webhook_event_def) (simp add: log_def)
next
  case True
  let ?g = "or_empty (cfg_generic cfg)"
  let ?p = "basePayload cfg out email"
  let ?us = "broadcast_urls cfg ?g"
  let ?P = "webhook_event cfg"
  have P: "\<forall>u. ?P (WarnRateLimited u) \<and> ?P (ErrWebhook u)" by (simp add: webhook_event_def)
  obtain ok w1 where a: "postSafely out ?g ?p w = (ok, w1)" by (cases "postSafely out ?g ?p w")
  then have p1: "posts w1 = posts w @ [(?g, ?p)]" and f1: "wh_frame w w1" and g1: "grows ?P w w1"
    using postSafely_posts[of out ?g ?p w] postSafely_frame[of w out ?g ?p]
      postSafely_grows[of ?P w out ?g ?p] P by auto
  let ?w2 = "if ok then log w1 LogGenericTriggered else w1"
  have p2: "posts ?w2 = posts w1" by (simp add: log_def)
  have f2: "wh_frame w1 ?w2" by (simp add: wh_frame_log wh_frame_refl)
  have g2: "grows ?P w1 ?w2" by (simp add: grows_log grows_refl webhook_event_def)
  have f02: "wh_frame w ?w2" using f1 f2 by (rule wh_frame_trans)
  have g02: "grows ?P w ?w2" using g1 g2 by (rule grows_trans)
  obtain rs w3 where b: "broadcast out ?p ?us ?w2 = (rs, w3)"
    by (cases "broadcast out ?p ?us ?w2")
  then have p3: "posts w3 = posts ?w2 @ map (\<lambda>u. (u, ?p)) ?us"
    and f3: "wh_frame ?w2 w3" and g3: "grows ?P ?w2 w3" and l3: "length rs = length ?us"
    using broadcast_posts[of out ?p ?us ?w2] broadcast_frame[of ?w2 out ?p ?us]
      broadcast_grows[of ?P ?w2 out ?p ?us] broadcast_length[of out ?p ?us ?w2] P by auto
  show ?thesis
  proof (cases "?us = []")
    case e: True
    have "sendGenericWebhook cfg out email w = (Inr (), log ?w2 WarnNoUrls)"
      using True a e by (simp add: sendGenericWebhook_def Let_def)
    moreover have "wh_frame w (log ?w2 WarnNoUrls)"
      using f02 wh_frame_log[of ?w2 WarnNoUrls] by (rule wh_frame_trans)
    moreover have "grows ?P w (log ?w2 WarnNoUrls)"
      using g02 grows_log[of ?P WarnNoUrls ?w2] by (auto intro: grows_trans simp: webhook_event_def)
    moreover have "posts (log ?w2 WarnNoUrls) = posts w @ [(?g, ?p)]"
      using p1 p2 by (simp add: log_def)
    ultimately show ?thesis using True e by simp
  next
    case ne: False
    let ?e = "LogBroadcast (length (filter (\<lambda>b. b) rs)) (length ?us)"
    have "sendGenericWebhook cfg out email w = (Inr (), log w3 ?e)"
      using True a b ne by (simp add: sendGenericWebhook_def Let_def)
    moreover have "wh_frame w (log w3 ?e)"
      using f02 f3 wh_frame_log[of w3 ?e] by (blast intro: wh_frame_trans)
    moreover have "?P ?e"
      using l3 True length_filter_le[of "\<lambda>b. b" rs]
      by (simp add: webhook_event_def)
    then have "grows ?P w (log w3 ?e)"
      using g02 g3 grows_log[of ?P ?e w3] by (blast intro: grows_trans)
    moreover have "posts (log w3 ?e) = posts w @ (?g, ?p) # map (\<lambda>u. (u, ?p)) ?us"
      using p1 p2 p3 by (simp add: log_def)
    ultimately show ?thesis using True by simp
  qed
qed

lemma sendSlackNotification_all:
  "wh_frame w (snd (sendSlackNotification cfg out email w))
   \<and> grows (webhook_event cfg) w (snd (sendSlackNotification cfg out email w))
   \<and> posts (snd (sendSlackNotification cfg out email w)) =
       posts w @ (if truthy (cfg_slack cfg)
                  then [(or_empty (cfg_slack cfg), slackPayload cfg email)] else [])"
proof (cases "truthy (cfg_slack cfg)")
  case False
  then show ?thesis
    by (simp add: sendSlackNotification_def wh_frame_log grows_log webhook_event_def)
       (simp add: log_def)
next
  case True
  let ?u = "or_empty (cfg_slack cfg)"
  let ?w1 = "w\<lparr>posts := posts w @ [(?u, slackPayload cfg email)]\<rparr>"
  have f: "wh_frame w ?w1" by (simp add: wh_frame_def imap_state_def)
  have g: "grows (webhook_event cfg) w ?w1" by (simp add: grows_same_logs)
  have es: "webhook_event cfg LogSlackSent" "webhook_event cfg ErrSlack"
    by (simp_all add: webhook_event_def)
  have "\<exists>r e. sendSlackNotification cfg out email w = (r, log ?w1 e) \<and> webhook_event cfg e"
  proof (cases "post_result out ?u")
    case Delivered
    with True have "sendSlackNotification cfg out email w = (Inr (), log ?w1 LogSlackSent)"
      by (simp add: sendSlackNotification_def Let_def)
    with es show ?thesis by blast
  next
    case (HttpStatus n)
    with True have "sendSlackNotification cfg out email w = (Inl (HttpError (Some n)), log ?w1 ErrSlack)"
      by (simp add: sendSlackNotification_def Let_def)
    with es show ?thesis by blast
  next
    case NetworkError
    with True have "sendSlackNotification cfg out email w = (Inl (HttpError None), log ?w1 ErrSlack)"
      by (simp add: sendSlackNotification_def Let_def)
    with es show ?thesis by blast
  qed
  then obtain r e where s: "sendSlackNotification cfg out email w = (r, log ?w1 e)"
    and e: "webhook_event cfg e" by blast
  have "wh_frame w (log ?w1 e)" using f wh_frame_log[of ?w1 e] by (rule wh_frame_trans)
  moreover have "grows (webhook_event cfg) w (log ?w1 e)"
    using g grows_log[of "webhook_event cfg" e ?w1] e by (blast intro: grows_trans)
  moreover have "posts (log ?w1 e) = posts w @ [(?u, slackPayload cfg email)]"
    by (simp add: log_def)
  ultimately show ?thesis using s True by simp
qed

lemma triggerInterestedWebhooks_all:
  "fst (triggerInterestedWebhooks cfg out email w) = Inr ()
   \<and> wh_frame w (snd (triggerInterestedWebhooks cfg out email w))
   \<and> grows (webhook_event cfg) w (snd (triggerInterestedWebhooks cfg out email w))
   \<and> LogTriggering (doc_subject email)
       \<in> set (new_logs w (snd (triggerInterestedWebhooks cfg out email w)))
   \<and> posts (snd (triggerInterestedWebhooks cfg out email w)) =
       posts w
       @ (if truthy (cfg_slack cfg)
          then [(or_empty (cfg_slack cfg), slackPayload cfg email)] else [])
       @ (if truthy (cfg_generic cfg)
          then map (\<lambda>u. (u, basePayload cfg out email))
                 (or_empty (cfg_generic cfg) # broadcast_urls cfg (or_empty (cfg_generic cfg)))
          else [])"
proof -
  let ?P = "webhook_event cfg"
  let ?w0 = "log w (LogTriggering (doc_subject email))"
  let ?p1 = "if truthy (cfg_slack cfg)
             then (case sendSlackNotification cfg out email ?w0 of (r, w') \<Rightarrow> ([r], w'))
             else ([], ?w0)"
  let ?w1 = "snd ?p1"
  let ?p2 = "if truthy (cfg_generic cfg)
             then (case sendGenericWebhook cfg out email ?w1 of (r, w') \<Rightarrow> ([r], w'))
             else ([], ?w1)"
  let ?w2 = "snd ?p2"
  have l0: "logs ?w0 = logs w @ [LogTriggering (doc_subject email)]" by (simp add: log_def)
  have f0: "wh_frame w ?w0" by (rule wh_frame_log)
  have g0: "grows ?P w ?w0" by (rule grows_log) (simp add: webhook_event_def)
  have q0: "posts ?w0 = posts w" by (simp add: log_def)
  have w1: "?w1 = (if truthy (cfg_slack cfg) then snd (sendSlackNotification cfg out email ?w0) else ?w0)"
    by (simp split: prod.splits)
  have f1: "wh_frame ?w0 ?w1" and g1: "grows ?P ?w0 ?w1"
    and q1: "posts ?w1 = posts ?w0 @ (if truthy (cfg_slack cfg)
          then [(or_empty (cfg_slack cfg), slackPayload cfg email)] else [])"
    unfolding w1 using sendSlackNotification_all[of ?w0 cfg out email]
    by (simp_all add: wh_frame_refl grows_refl)
  have w2: "?w2 = (if truthy (cfg_generic cfg) then snd (sendGenericWebhook cfg out email ?w1) else ?w1)"
    by (simp split: prod.splits)
  have f2: "wh_frame ?w1 ?w2" and g2: "grows ?P ?w1 ?w2"
    and q2: "posts ?w2 = posts ?w1 @ (if truthy (cfg_generic cfg)
          then map (\<lambda>u. (u, basePayload cfg out email))
                 (or_empty (cfg_generic cfg) # broadcast_urls cfg (or_empty (cfg_generic cfg)))
          else [])"
    unfolding w2 using sendGenericWebhook_all[of cfg out email ?w1]
    by (simp_all add: wh_frame_refl grows_refl)
  have f02: "wh_frame w ?w2" using f0 f1 f2 by (blast intro: wh_frame_trans)
  have g02: "grows ?P w ?w2" using g0 g1 g2 by (blast intro: grows_trans)
  have g12: "grows ?P ?w0 ?w2" using g1 g2 by (blast intro: grows_trans)
  obtain e where r: "triggerInterestedWebhooks cfg out email w = (Inr (), log ?w2 e)"
    and e: "e = LogAllTriggered \<or> e = ErrTriggering"
    by (cases "promise_all (fst ?p1 @ fst ?p2)")
       (simp_all add: triggerInterestedWebhooks_def Let_def)
  from e have Pe: "?P e" by (auto simp: webhook_event_def)
  have f: "wh_frame w (log ?w2 e)" using f02 wh_frame_log[of ?w2 e] by (rule wh_frame_trans)
  have g: "grows ?P w (log ?w2 e)" using g02 grows_log[of ?P e ?w2, OF Pe] by (rule grows_trans)
  have g': "grows ?P ?w0 (log ?w2 e)" using g12 grows_log[of ?P e ?w2, OF Pe] by (rule grows_trans)
  then obtain new where "logs (log ?w2 e) = logs ?w0 @ new" by (auto simp: grows_def)
  with l0 have "new_logs w (log ?w2 e) = LogTriggering (doc_subject email) # new"
    by (simp add: new_logs_def)
  then have m: "LogTriggering (doc_subject email) \<in> set (new_logs w (log ?w2 e))" by simp
  have q: "posts (log ?w2 e) = posts ?w2" by (simp add: log_def)
  show ?thesis
    unfolding r using f g m q q0 q1 q2 by simp
qed

text \<open>
  C8. For every configuration and every pattern of per-destination outcomes,
  \<open>triggerInterestedWebhooks\<close> returns normally; the destinations it posts to are
  the configured ones whatever each of them answers (Slack, then the generic URL and
  every other non-empty interested URL once the generic URL is configured), so no
  failure or rate limit of one keeps another from being attempted; and a reported
  success count never exceeds the number of URLs of the broadcast, which is at most
  the number of configured destinations.
\<close>

theorem triggerInterestedWebhooks_independent:
  "fst (triggerInterestedWebhooks cfg out email w) = Inr ()
   \<and> map fst (new_posts w (snd (triggerInterestedWebhooks cfg out email w)))
       = configured_destinations cfg
   \<and> (truthy (cfg_slack cfg) \<longrightarrow> or_empty (cfg_slack cfg) \<in> set (configured_destinations cfg))
   \<and> (truthy (cfg_generic cfg) \<longrightarrow>
        or_empty (cfg_generic cfg) \<in> set (configured_destinations cfg)
        \<and> (\<forall>u \<in> set (cfg_interestedUrls cfg). u \<noteq> [] \<longrightarrow> u \<in> set (configured_destinations cfg)))
   \<and> (\<forall>s n. LogBroadcast s n \<in> set (new_logs w (snd (triggerInterestedWebhooks cfg out email w)))
        \<longrightarrow> s \<le> n \<and> n \<le> length (cfg_interestedUrls cfg)
            \<and> n \<le> length (configured_destinations cfg))"
proof (intro conjI)
  let ?w' = "snd (triggerInterestedWebhooks cfg out email w)"
  note all = triggerInterestedWebhooks_all[of cfg out email w]
  show "fst (triggerInterestedWebhooks cfg out email w) = Inr ()" using all by simp
  show "map fst (new_posts w ?w') = configured_destinations cfg"
    using all by (simp add: new_posts_def configured_destinations_def comp_def)
  show "truthy (cfg_slack cfg) \<longrightarrow> or_empty (cfg_slack cfg) \<in> set (configured_destinations cfg)"
    by (simp add: configured_destinations_def)
  show "truthy (cfg_generic cfg) \<longrightarrow>
        or_empty (cfg_generic cfg) \<in> set (configured_destinations cfg)
        \<and> (\<forall>u \<in> set (cfg_interestedUrls cfg). u \<noteq> [] \<longrightarrow> u \<in> set (configured_destinations cfg))"
    by (auto simp: configured_destinations_def broadcast_urls_set)
  show "\<forall>s n. LogBroadcast s n \<in> set (new_logs w ?w')
        \<longrightarrow> s \<le> n \<and> n \<le> length (cfg_interestedUrls cfg)
            \<and> n \<le> length (configured_destinations cfg)"
  proof (intro allI impI)
    fix s n
    assume m: "LogBroadcast s n \<in> set (new_logs w ?w')"
    from all have "list_all (webhook_event cfg) (new_logs w ?w')" by (simp add: grows_def)
    with m have "webhook_event cfg (LogBroadcast s n)" by (simp add: list_all_iff)
    then have a: "s \<le> n" and t: "truthy (cfg_generic cfg)"
      and n: "n = length (broadcast_urls cfg (or_empty (cfg_generic cfg)))"
      by (simp_all add: webhook_event_def)
    from n t have b: "n \<le> length (cfg_interestedUrls cfg)"
      using broadcast_urls_length[of cfg] by simp
    from n t have "n \<le> length (configured_destinations cfg)"
      by (simp add: configured_destinations_def)
    with a b show "s \<le> n \<and> n \<le> length (cfg_interestedUrls cfg)
            \<and> n \<le> length (configured_destinations cfg)" by simp
  qed
qed

lemma sample_trigger_logs:
  "new_logs empty_world (snd (triggerInterestedWebhooks sample_cfg sample_out sample_doc empty_world))
   = [LogTriggering ''Offer'', LogSlackSent, LogGenericTriggered,
      WarnRateLimited ''http://a.example'', LogBroadcast 1 2, LogAllTriggered]"
  by (simp add: triggerInterestedWebhooks_def sendSlackNotification_def sendGenericWebhook_def
      postSafely_def broadcast_urls_def set_add_def set_delete_def truthy_def or_empty_def
      sample_cfg_def sample_out_def sample_doc_def empty_world_def log_def new_logs_def Let_def)

theorem triggerInterestedWebhooks_independent_witness:
  "truthy (cfg_slack sample_cfg) \<and> truthy (cfg_generic sample_cfg)
   \<and> post_result sample_out ''http://a.example'' = HttpStatus 429
   \<and> LogBroadcast 1 2 \<in> set (new_logs empty_world
        (snd (triggerInterestedWebhooks sample_cfg sample_out sample_doc empty_world)))
   \<and> map fst (new_posts empty_world
        (snd (triggerInterestedWebhooks sample_cfg sample_out sample_doc empty_world)))
      = configured_destinations sample_cfg
   \<and> ''http://b.example'' \<in> set (configured_destinations sample_cfg)
   \<and> (2::nat) \<le> length (configured_destinations sample_cfg)"
proof -
  have t: "truthy (cfg_slack sample_cfg)" "truthy (cfg_generic sample_cfg)"
    "post_result sample_out ''http://a.example'' = HttpStatus 429"
    "''http://b.example'' \<in> set (cfg_interestedUrls sample_cfg)"
    by (simp_all add: sample_cfg_def sample_out_def truthy_def)
  have m: "LogBroadcast 1 2 \<in> set (new_logs empty_world
        (snd (triggerInterestedWebhooks sample_cfg sample_out sample_doc empty_world)))"
    by (simp add: sample_trigger_logs)
  from triggerInterestedWebhooks_independent[of sample_cfg sample_out sample_doc empty_world] t m
  show ?thesis by fastforce
qed

subsection \<open>The stages of the ingestion pipeline\<close>

lemma imap_state_log: "imap_state (log w e) = imap_state w"
  by (simp add: imap_state_def log_def)

lemma categorizeEmail_fst:
  "fst (categorizeEmail cfg out s b f w) = Inr \<lparr>category = classification cfg out\<rparr>"
  by (auto simp: categorizeEmail_def categorize_try_def classification_def jfield_def Let_def
      validCategories_def
      split: ai_outcome.splits jv.splits option.splits)

lemma categorizeEmail_snd:
  "es_docs (snd (categorizeEmail cfg out s b f w)) = es_docs w"
  "posts (snd (categorizeEmail cfg out s b f w)) = posts w"
  "imap_state (snd (categorizeEmail cfg out s b f w)) = imap_state w"
  by (simp_all add: categorizeEmail_def categorize_try_def imap_state_def log_def Let_def
      split: ai_outcome.splits jv.splits option.splits)


lemma es_put_mem: "d \<in> set (es_put d ds)"
proof (cases "doc_id d \<in> doc_id ` set ds")
  case True
  then obtain x where "x \<in> set ds" "doc_id x = doc_id d" by auto
  then have "(\<lambda>x. if doc_id x = doc_id d then d else x) x \<in> set (es_put d ds)"
    using True by (simp add: es_put_def)
  with \<open>doc_id x = doc_id d\<close> show ?thesis by simp
next
  case False
  then show ?thesis by (simp add: es_put_def)
qed

lemma new_doc_id: "doc_id (new_doc out parsed account folder) = uuid out"
  by (simp add: new_doc_def emailDoc_of_def)

lemma after_check_eq:
  "after_check out parsed w =
     (if rawMessageId_of parsed \<noteq> [] \<and> \<not> search_ok out then log w ErrSearchByMessageId else w)"
  by (simp add: after_check_def existsByMessageId_def findByMessageId_def split: list.splits)

lemma existsByMessageId_fst:
  "fst (existsByMessageId out m w) =
     (search_ok out \<and> (\<exists>d \<in> set (es_docs w). doc_messageId d = m))"
proof (cases "filter (\<lambda>d. doc_messageId d = m) (es_docs w)")
  case Nil
  then have "\<not> (\<exists>d \<in> set (es_docs w). doc_messageId d = m)"
    by (simp add: filter_empty_conv)
  with Nil show ?thesis by (simp add: existsByMessageId_def findByMessageId_def)
next
  case (Cons x xs)
  then have "x \<in> set (filter (\<lambda>d. doc_messageId d = m) (es_docs w))" by simp
  then have "\<exists>d \<in> set (es_docs w). doc_messageId d = m" by auto
  with Cons show ?thesis by (simp add: existsByMessageId_def findByMessageId_def)
qed

lemma is_duplicate_eq:
  "is_duplicate out parsed w =
     (rawMessageId_of parsed \<noteq> [] \<and> search_ok out
      \<and> (\<exists>d \<in> set (es_docs w). doc_messageId d = rawMessageId_of parsed))"
  by (simp add: is_duplicate_def existsByMessageId_fst)

lemma processEmail_try_dup:
  assumes "is_duplicate out parsed w"
  shows "processEmail_try cfg out parsed account folder w =
           (Inr (), log w (LogDuplicate (rawMessageId_of parsed) (acc_email account)))"
proof -
  from assms have r: "rawMessageId_of parsed \<noteq> []"
    and e: "fst (existsByMessageId out (rawMessageId_of parsed) w)"
    by (simp_all add: is_duplicate_def)
  from assms have s: "search_ok out" by (simp add: is_duplicate_eq)
  from s have "snd (existsByMessageId out (rawMessageId_of parsed) w) = w"
    by (simp add: existsByMessageId_def findByMessageId_def split: list.splits)
  with r e show ?thesis by (simp add: processEmail_try_def Let_def)
qed

lemma processEmail_try_new:
  assumes "\<not> is_duplicate out parsed w"
  shows "processEmail_try cfg out parsed account folder w =
     (if \<not> index_ok out
      then (Inl EsError, log (after_check out parsed w) ErrIndexingEmail)
      else if \<not> update_ok out
      then (Inl EsError, log (after_classify cfg out parsed account folder w) ErrUpdatingCategory)
      else (Inr (),
            log (if classification cfg out = ''Interested''
                 then snd (triggerInterestedWebhooks cfg out
                        ((new_doc out parsed account folder)\<lparr>doc_aiCategory := classification cfg out\<rparr>)
                        (after_update cfg out parsed account folder w))
                 else after_update cfg out parsed account folder w)
              (LogProcessed (doc_subject (new_doc out parsed account folder))
                 (classification cfg out))))"
proof -
  let ?raw = "rawMessageId_of parsed"
  let ?doc = "new_doc out parsed account folder"
  let ?w1 = "after_check out parsed w"
  let ?chk = "if ?raw \<noteq> [] then existsByMessageId out ?raw w else (False, w)"
  have c1: "\<not> (?raw \<noteq> [] \<and> fst ?chk)" using assms by (auto simp: is_duplicate_def)
  have c2: "snd ?chk = ?w1" by (simp add: after_check_def)
  have step: "processEmail_try cfg out parsed account folder w =
      (case indexEmail out ?doc ?w1 of
         (Inl e, w2) \<Rightarrow> (Inl e, w2)
       | (Inr _, w2) \<Rightarrow>
           (case categorizeEmail cfg out (doc_subject ?doc) (doc_body ?doc) (doc_from ?doc) w2 of
              (Inl e, w3) \<Rightarrow> (Inl e, w3)
            | (Inr categorization, w3) \<Rightarrow>
                (case updateEmailCategory out (uuid out) (category categorization) w3 of
                   (Inl e, w4) \<Rightarrow> (Inl e, w4)
                 | (Inr _, w4) \<Rightarrow>
                     (let emailDoc' = ?doc\<lparr>doc_aiCategory := category categorization\<rparr>;
                          fan = (if category categorization = ''Interested''
                                 then triggerInterestedWebhooks cfg out emailDoc' w4
                                 else (Inr (), w4))
                      in case fst fan of
                           Inl e \<Rightarrow> (Inl e, snd fan)
                         | Inr _ \<Rightarrow>
                             (Inr (), log (snd fan)
                                (LogProcessed (doc_subject emailDoc')
                                   (category categorization)))))))"
    unfolding processEmail_try_def Let_def new_doc_def[symmetric] using c1 c2
    by (simp only: if_False new_doc_def)
  show ?thesis
  proof (cases "index_ok out")
    case False
    then show ?thesis unfolding step by (simp add: indexEmail_def)
  next
    case io: True
    let ?w2 = "after_index out parsed account folder w"
    have i: "indexEmail out ?doc ?w1 = (Inr (), ?w2)"
      using io by (simp add: indexEmail_def after_index_def)
    let ?w3 = "after_classify cfg out parsed account folder w"
    have a: "categorizeEmail cfg out (doc_subject ?doc) (doc_body ?doc) (doc_from ?doc) ?w2
             = (Inr \<lparr>category = classification cfg out\<rparr>, ?w3)"
      using categorizeEmail_fst[of cfg out "doc_subject ?doc" "doc_body ?doc" "doc_from ?doc" ?w2]
      by (simp add: after_classify_def prod_eq_iff)
    have "?doc \<in> set (es_docs ?w3)"
      by (simp add: after_classify_def categorizeEmail_snd after_index_def es_put_mem)
    then have "doc_id ?doc \<in> doc_id ` set (es_docs ?w3)" by (rule imageI)
    then have ids: "uuid out \<in> doc_id ` set (es_docs ?w3)" by (simp only: new_doc_id)
    show ?thesis
    proof (cases "update_ok out")
      case False
      then show ?thesis unfolding step using io i a by (simp add: updateEmailCategory_def)
    next
      case uo: True
      have u: "updateEmailCategory out (uuid out) (classification cfg out) ?w3
               = (Inr (), after_update cfg out parsed account folder w)"
        using uo ids by (simp add: updateEmailCategory_def after_update_def set_category_def)
      show ?thesis unfolding step using io uo i a u
        by (simp add: Let_def triggerInterestedWebhooks_all)
    qed
  qed
qed

subsection \<open>The deduplication gate\<close>

lemma processEmail_dup:
  "is_duplicate out parsed w \<Longrightarrow>
   processEmail cfg out parsed account folder w =
     log w (LogDuplicate (rawMessageId_of parsed) (acc_email account))"
  by (simp add: processEmail_def processEmail_try_dup)

lemma processEmail_new:
  "\<not> is_duplicate out parsed w \<Longrightarrow>
   processEmail cfg out parsed account folder w =
     (if \<not> index_ok out
      then log (log (after_check out parsed w) ErrIndexingEmail) ErrProcessingEmail
      else if \<not> update_ok out
      then log (log (after_classify cfg out parsed account folder w) ErrUpdatingCategory)
             ErrProcessingEmail
      else log (if classification cfg out = ''Interested''
                then snd (triggerInterestedWebhooks cfg out
                       ((new_doc out parsed account folder)\<lparr>doc_aiCategory := classification cfg out\<rparr>)
                       (after_update cfg out parsed account folder w))
                else after_update cfg out parsed account folder w)
             (LogProcessed (doc_subject (new_doc out parsed account folder))
                (classification cfg out)))"
  by (simp add: processEmail_def processEmail_try_new)

lemma after_stage_es_docs:
  "es_docs (after_check out parsed w) = es_docs w"
  "es_docs (after_index out parsed account folder w)
     = es_put (new_doc out parsed account folder) (es_docs w)"
  "es_docs (after_classify cfg out parsed account folder w)
     = es_put (new_doc out parsed account folder) (es_docs w)"
  "es_docs (after_update cfg out parsed account folder w)
     = set_category (uuid out) (classification cfg out)
         (es_put (new_doc out parsed account folder) (es_docs w))"
  by (simp_all add: after_check_eq after_index_def after_classify_def after_update_def
      categorizeEmail_snd log_def)

lemma after_stage_posts:
  "posts (after_check out parsed w) = posts w"
  "posts (after_index out parsed account folder w) = posts w"
  "posts (after_classify cfg out parsed account folder w) = posts w"
  "posts (after_update cfg out parsed account folder w) = posts w"
  by (simp_all add: after_check_eq after_index_def after_classify_def after_update_def
      categorizeEmail_snd log_def)

lemma after_stage_imap:
  "imap_state (after_check out parsed w) = imap_state w"
  "imap_state (after_index out parsed account folder w) = imap_state w"
  "imap_state (after_classify cfg out parsed account folder w) = imap_state w"
  "imap_state (after_update cfg out parsed account folder w) = imap_state w"
proof -
  show 1: "imap_state (after_check out parsed w) = imap_state w"
    by (simp add: after_check_eq imap_state_log)
  have "imap_state (after_index out parsed account folder w) = imap_state (after_check out parsed w)"
    by (simp add: after_index_def imap_state_def)
  with 1 show 2: "imap_state (after_index out parsed account folder w) = imap_state w" by simp
  have "imap_state (after_classify cfg out parsed account folder w)
        = imap_state (after_index out parsed account folder w)"
    by (simp add: after_classify_def categorizeEmail_snd)
  with 2 show 3: "imap_state (after_classify cfg out parsed account folder w) = imap_state w" by simp
  have "imap_state (after_update cfg out parsed account folder w)
        = imap_state (after_classify cfg out parsed account folder w)"
    by (simp add: after_update_def imap_state_def)
  with 3 show "imap_state (after_update cfg out parsed account folder w) = imap_state w" by simp
qed

lemma trigger_es_docs:
  "es_docs (snd (triggerInterestedWebhooks cfg out email w)) = es_docs w"
  using triggerInterestedWebhooks_all[of cfg out email w] by (simp add: wh_frame_def)

lemma trigger_imap:
  "imap_state (snd (triggerInterestedWebhooks cfg out email w)) = imap_state w"
  using triggerInterestedWebhooks_all[of cfg out email w] by (simp add: wh_frame_def)

lemma trigger_posts:
  "posts (snd (triggerInterestedWebhooks cfg out email w)) =
       posts w
       @ (if truthy (cfg_slack cfg)
          then [(or_empty (cfg_slack cfg), slackPayload cfg email)] else [])
       @ (if truthy (cfg_generic cfg)
          then map (\<lambda>u. (u, basePayload cfg out email))
                 (or_empty (cfg_generic cfg) # broadcast_urls cfg (or_empty (cfg_generic cfg)))
          else [])"
  using triggerInterestedWebhooks_all[of cfg out email w] by simp

lemma processEmail_es_docs:
  "es_docs (processEmail cfg out parsed account folder w) =
     (if is_duplicate out parsed w \<or> \<not> index_ok out then es_docs w
      else if \<not> update_ok out then es_put (new_doc out parsed account folder) (es_docs w)
      else set_category (uuid out) (classification cfg out)
             (es_put (new_doc out parsed account folder) (es_docs w)))"
proof (cases "is_duplicate out parsed w")
  case True
  then show ?thesis by (simp add: processEmail_dup log_def)
next
  case False
  then show ?thesis
    by (simp add: processEmail_new after_stage_es_docs trigger_es_docs)
       (simp add: log_def after_stage_es_docs trigger_es_docs)
qed

lemma processEmail_posts:
  "posts (processEmail cfg out parsed account folder w) =
     (if \<not> is_duplicate out parsed w \<and> index_ok out \<and> update_ok out
         \<and> classification cfg out = ''Interested''
      then posts (snd (triggerInterestedWebhooks cfg out
                    ((new_doc out parsed account folder)\<lparr>doc_aiCategory := ''Interested''\<rparr>)
                    (after_update cfg out parsed account folder w)))
      else posts w)"
proof (cases "is_duplicate out parsed w")
  case True
  then show ?thesis by (simp add: processEmail_dup log_def)
next
  case False
  then show ?thesis
    by (simp add: processEmail_new) (simp add: log_def after_stage_posts)
qed

lemma processEmail_imap:
  "imap_state (processEmail cfg out parsed account folder w) = imap_state w"
proof (cases "is_duplicate out parsed w")
  case True
  then show ?thesis by (simp add: processEmail_dup imap_state_log)
next
  case False
  then show ?thesis
    by (simp add: processEmail_new imap_state_log after_stage_imap trigger_imap)
qed

lemma processEmail_ai_calls:
  "ai_calls (processEmail cfg out parsed account folder w) =
     (if \<not> is_duplicate out parsed w \<and> index_ok out \<and> cfg_aiConfigured cfg
      then ai_calls w @ [prompt_of (doc_subject (new_doc out parsed account folder))
                           (doc_body (new_doc out parsed account folder))
                           (doc_from (new_doc out parsed account folder))]
      else ai_calls w)"
proof (cases "is_duplicate out parsed w")
  case True
  then show ?thesis by (simp add: processEmail_dup log_def)
next
  case False
  have c: "ai_calls (after_check out parsed w) = ai_calls w"
    by (simp add: after_check_eq log_def)
  have a: "ai_calls (after_classify cfg out parsed account folder w) =
       (if cfg_aiConfigured cfg
        then ai_calls w @ [prompt_of (doc_subject (new_doc out parsed account folder))
                           (doc_body (new_doc out parsed account folder))
                           (doc_from (new_doc out parsed account folder))]
        else ai_calls w)"
    using c
    by (simp add: after_classify_def after_index_def categorizeEmail_def categorize_try_def
        log_def Let_def split: ai_outcome.splits jv.splits option.splits)
  have t: "\<And>e w0. ai_calls (snd (triggerInterestedWebhooks cfg out e w0)) = ai_calls w0"
    using triggerInterestedWebhooks_all by (simp add: wh_frame_def)
  from False show ?thesis
    by (simp add: processEmail_new) (simp add: log_def c a t after_update_def)
qed

lemma sample_raw: "rawMessageId_of sample_parsed = ''<m1@x.example>''"
  by (simp add: rawMessageId_of_def sample_parsed_def or_empty_def trim_def is_ws_def)

text \<open>
  C1 (amended). For every inbound message whose message identifier is non-empty after
  trimming, for which a record with that \<open>messageId\<close> exists in the index and for
  which the index lookup answers, \<open>processEmail\<close> only logs the duplicate: it
  inserts no record, sends nothing to the classifier and posts to no destination.
\<close>

theorem processEmail_skips_duplicate:
  assumes "rawMessageId_of parsed \<noteq> []"
    and "\<exists>d \<in> set (es_docs w). doc_messageId d = rawMessageId_of parsed"
    and "search_ok out"
  shows "processEmail cfg out parsed account folder w
           = log w (LogDuplicate (rawMessageId_of parsed) (acc_email account))
         \<and> es_docs (processEmail cfg out parsed account folder w) = es_docs w
         \<and> ai_calls (processEmail cfg out parsed account folder w) = ai_calls w
         \<and> posts (processEmail cfg out parsed account folder w) = posts w
         \<and> new_logs w (processEmail cfg out parsed account folder w)
             = [LogDuplicate (rawMessageId_of parsed) (acc_email account)]"
proof -
  from assms have "is_duplicate out parsed w" by (simp add: is_duplicate_eq)
  then have "processEmail cfg out parsed account folder w
           = log w (LogDuplicate (rawMessageId_of parsed) (acc_email account))"
    by (rule processEmail_dup)
  then show ?thesis by (simp add: log_def new_logs_def)
qed

theorem processEmail_skips_duplicate_witness:
  "rawMessageId_of sample_parsed \<noteq> []
   \<and> map doc_messageId (es_docs dup_world) = [rawMessageId_of sample_parsed]
   \<and> search_ok sample_out
   \<and> es_docs (processEmail sample_cfg sample_out sample_parsed sample_account ''INBOX'' dup_world)
       = es_docs dup_world
   \<and> ai_calls (processEmail sample_cfg sample_out sample_parsed sample_account ''INBOX'' dup_world) = []
   \<and> posts (processEmail sample_cfg sample_out sample_parsed sample_account ''INBOX'' dup_world) = []"
proof -
  have a: "rawMessageId_of sample_parsed \<noteq> []" by (simp add: sample_raw)
  have b: "map doc_messageId (es_docs dup_world) = [rawMessageId_of sample_parsed]"
    by (simp add: sample_raw dup_world_def sample_doc_def)
  then have b': "\<exists>d \<in> set (es_docs dup_world). doc_messageId d = rawMessageId_of sample_parsed"
    by (simp add: dup_world_def)
  have c: "search_ok sample_out" by (simp add: sample_out_def)
  have d: "es_docs dup_world = [sample_doc\<lparr>doc_id := ''uuid-0''\<rparr>]" "ai_calls dup_world = []"
    "posts dup_world = []"
    by (simp_all add: dup_world_def empty_world_def)
  from processEmail_skips_duplicate[OF a b' c, of sample_cfg sample_account "''INBOX''"] a b c d
  show ?thesis by (simp add: log_def)
qed

text \<open>
  When the lookup itself fails, \<open>findByMessageId\<close> answers \<open>null\<close> and the
  pipeline goes on: a second record with the same \<open>messageId\<close> is inserted, the
  classifier is called and the destinations are notified.
\<close>

theorem processEmail_lookup_failure_counterexample:
  "rawMessageId_of sample_parsed \<noteq> []
   \<and> map doc_messageId (es_docs dup_world) = [rawMessageId_of sample_parsed]
   \<and> map doc_messageId
       (es_docs (processEmail sample_cfg (sample_out\<lparr>search_ok := False\<rparr>) sample_parsed
                   sample_account ''INBOX'' dup_world))
       = [rawMessageId_of sample_parsed, rawMessageId_of sample_parsed]
   \<and> length (ai_calls (processEmail sample_cfg (sample_out\<lparr>search_ok := False\<rparr>) sample_parsed
                   sample_account ''INBOX'' dup_world)) = 1
   \<and> length (posts (processEmail sample_cfg (sample_out\<lparr>search_ok := False\<rparr>) sample_parsed
                   sample_account ''INBOX'' dup_world)) = 4"
proof -
  let ?out = "sample_out\<lparr>search_ok := False\<rparr>"
  have nd: "\<not> is_duplicate ?out sample_parsed dup_world" by (simp add: is_duplicate_eq)
  have cl: "classification sample_cfg ?out = ''Interested''"
    by (simp add: classification_def sample_cfg_def sample_out_def jfield_def validCategories_def)
  have io: "index_ok ?out" "update_ok ?out" by (simp_all add: sample_out_def)
  have ac: "after_check ?out sample_parsed dup_world = log dup_world ErrSearchByMessageId"
    by (simp add: after_check_eq sample_raw)
  have d: "es_docs dup_world = [sample_doc\<lparr>doc_id := ''uuid-0''\<rparr>]" "ai_calls dup_world = []"
    "posts dup_world = []"
    by (simp_all add: dup_world_def empty_world_def)
  have u: "uuid ?out = ''uuid-1''" by (simp add: sample_out_def)
  have m: "doc_messageId (new_doc ?out sample_parsed sample_account ''INBOX'') = ''<m1@x.example>''"
    "doc_id (new_doc ?out sample_parsed sample_account ''INBOX'') = ''uuid-1''"
    by (simp_all add: new_doc_def emailDoc_of_def sample_raw sample_out_def)
  have e: "map doc_messageId
       (es_docs (processEmail sample_cfg ?out sample_parsed sample_account ''INBOX'' dup_world))
       = [''<m1@x.example>'', ''<m1@x.example>'']"
    using nd io cl m
    by (simp add: processEmail_es_docs d u set_category_def es_put_def sample_doc_def)
  have a: "length (ai_calls (processEmail sample_cfg ?out sample_parsed sample_account ''INBOX'' dup_world)) = 1"
    using nd io by (simp add: processEmail_ai_calls d sample_cfg_def)
  have p: "length (posts (processEmail sample_cfg ?out sample_parsed sample_account ''INBOX'' dup_world)) = 4"
    using nd io cl
    by (simp add: processEmail_posts trigger_posts after_stage_posts d)
       (simp add: sample_cfg_def truthy_def or_empty_def broadcast_urls_def set_add_def set_delete_def)
  from e a p show ?thesis by (simp add: sample_raw d sample_doc_def)
qed

subsection \<open>When the fanout is triggered\<close>















subsection \<open>Reconnection\<close>












subsection \<open>Batches of fetched messages\<close>

lemma effects_log: "effects (log w e) = effects w"
  by (simp add: effects_def imap_state_log) (simp add: log_def)

lemma processEmail_effects_cong:
  assumes "effects w1 = effects w2"
  shows "effects (processEmail cfg out parsed account folder w1)
         = effects (processEmail cfg out parsed account folder w2)"
proof -
  from assms have e: "es_docs w1 = es_docs w2" and a: "ai_calls w1 = ai_calls w2"
    and p: "posts w1 = posts w2" and i: "imap_state w1 = imap_state w2"
    by (simp_all add: effects_def)
  from e have d: "is_duplicate out parsed w1 = is_duplicate out parsed w2"
    by (simp add: is_duplicate_eq)
  have "es_docs (processEmail cfg out parsed account folder w1)
        = es_docs (processEmail cfg out parsed account folder w2)"
    by (simp add: processEmail_es_docs d e)
  moreover have "ai_calls (processEmail cfg out parsed account folder w1)
        = ai_calls (processEmail cfg out parsed account folder w2)"
    by (simp add: processEmail_ai_calls d a)
  moreover have "posts (processEmail cfg out parsed account folder w1)
        = posts (processEmail cfg out parsed account folder w2)"
    by (simp add: processEmail_posts trigger_posts after_stage_posts d p)
  moreover have "imap_state (processEmail cfg out parsed account folder w1)
        = imap_state (processEmail cfg out parsed account folder w2)"
    by (simp add: processEmail_imap i)
  ultimately show ?thesis by (simp add: effects_def)
qed

lemma processMessages_Cons_snd:
  "snd (processMessages cfg env account folder (n # ns) w) =
     snd (processMessages cfg env account folder ns
            (case message_at env n of
               Missing \<Rightarrow> w
             | Malformed \<Rightarrow> log w ErrFetchedEmail
             | Wellformed parsed \<Rightarrow> processEmail cfg (outcomes_at env n) parsed account folder w))"
  by (cases "message_at env n") (simp_all add: case_prod_beta)

lemma processMessages_Cons_fst:
  "fst (processMessages cfg env account folder (n # ns) w) =
     (case message_at env n of
        Missing \<Rightarrow> []
      | Malformed \<Rightarrow> [Inl ParseError]
      | Wellformed parsed \<Rightarrow> [Inr ()])
     @ fst (processMessages cfg env account folder ns
            (case message_at env n of
               Missing \<Rightarrow> w
             | Malformed \<Rightarrow> log w ErrFetchedEmail
             | Wellformed parsed \<Rightarrow> processEmail cfg (outcomes_at env n) parsed account folder w))"
  by (cases "message_at env n") (simp_all add: case_prod_beta)

declare processMessages.simps(2) [simp del]

lemma processMessages_effects_cong:
  "effects w1 = effects w2 \<Longrightarrow>
   effects (snd (processMessages cfg env account folder ns w1))
   = effects (snd (processMessages cfg env account folder ns w2))"
proof (induction ns arbitrary: w1 w2)
  case Nil
  then show ?case by simp
next
  case (Cons n ns)
  show ?case
  proof (cases "message_at env n")
    case Missing
    with Cons.IH[OF Cons.prems] show ?thesis by (simp add: processMessages_Cons_snd)
  next
    case Malformed
    have "effects (log w1 ErrFetchedEmail) = effects (log w2 ErrFetchedEmail)"
      using Cons.prems by (simp add: effects_log)
    from Cons.IH[OF this] Malformed show ?thesis by (simp add: processMessages_Cons_snd)
  next
    case (Wellformed parsed)
    have "effects (processEmail cfg (outcomes_at env n) parsed account folder w1)
          = effects (processEmail cfg (outcomes_at env n) parsed account folder w2)"
      using Cons.prems by (rule processEmail_effects_cong)
    from Cons.IH[OF this] Wellformed show ?thesis by (simp add: processMessages_Cons_snd)
  qed
qed

lemma processMessages_append_snd:
  "snd (processMessages cfg env account folder (xs @ ys) w) =
     snd (processMessages cfg env account folder ys
            (snd (processMessages cfg env account folder xs w)))"
proof (induction xs arbitrary: w)
  case Nil
  then show ?case by simp
next
  case (Cons x xs)
  show ?case
    by (simp only: append_Cons processMessages_Cons_snd Cons.IH)
qed

lemma processMessages_rejects:
  "promise_all (fst (processMessages cfg env account folder ns w)) =
     (if \<exists>n \<in> set ns. message_at env n = Malformed then Inl ParseError else Inr ())"
proof (induction ns arbitrary: w)
  case Nil
  then show ?case by simp
next
  case (Cons n ns)
  show ?case
    by (cases "message_at env n") (simp_all add: processMessages_Cons_fst Cons.IH)
qed

text \<open>
  C6 (amended). When the fetch itself does not fail, a message that does not parse is
  the only one skipped: the index, the classifier calls, the posts and the session
  state after the batch are those of the batch without it. The fetch operation then
  rejects with the parse error; it fulfils when no message of the batch fails to
  parse.
\<close>

theorem parse_error_skips_one_and_rejects_batch:
  assumes "message_at env b = Malformed" and "\<not> fetch_fails env"
  shows "effects (snd (fetchEmailsBySeqNo cfg env account (pre @ b # post) folder w))
           = effects (snd (fetchEmailsBySeqNo cfg env account (pre @ post) folder w))
         \<and> fst (fetchEmailsBySeqNo cfg env account (pre @ b # post) folder w) = Inl ParseError
         \<and> ((\<forall>n \<in> set (pre @ post). message_at env n \<noteq> Malformed) \<longrightarrow>
              fst (fetchEmailsBySeqNo cfg env account (pre @ post) folder w) = Inr ())"
proof -
  let ?pm = "processMessages cfg env account folder"
  let ?w1 = "snd (?pm pre w)"
  have "snd (?pm (pre @ b # post) w) = snd (?pm (b # post) ?w1)"
    by (rule processMessages_append_snd)
  also have "\<dots> = snd (?pm post (log ?w1 ErrFetchedEmail))"
    using assms(1) by (simp add: processMessages_Cons_snd)
  finally have l: "snd (?pm (pre @ b # post) w) = snd (?pm post (log ?w1 ErrFetchedEmail))" .
  have r: "snd (?pm (pre @ post) w) = snd (?pm post ?w1)"
    by (rule processMessages_append_snd)
  have "effects (snd (?pm post (log ?w1 ErrFetchedEmail))) = effects (snd (?pm post ?w1))"
    by (rule processMessages_effects_cong) (rule effects_log)
  with l r have 1: "effects (snd (?pm (pre @ b # post) w)) = effects (snd (?pm (pre @ post) w))"
    by simp
  have 2: "promise_all (fst (?pm (pre @ b # post) w)) = Inl ParseError"
    using assms(1) by (simp add: processMessages_rejects)
  have 3: "(\<forall>n \<in> set (pre @ post). message_at env n \<noteq> Malformed) \<longrightarrow>
             promise_all (fst (?pm (pre @ post) w)) = Inr ()"
    by (simp add: processMessages_rejects)
  from 1 2 3 assms(2) show ?thesis
    by (simp add: fetchEmailsBySeqNo_def case_prod_beta)
qed

lemma sample_raw2:
  "rawMessageId_of (sample_parsed\<lparr>pm_messageId := Some ''<m2@x.example>''\<rparr>) = ''<m2@x.example>''"
  by (simp add: rawMessageId_of_def or_empty_def trim_def is_ws_def)

lemma set_category_messageId: "map doc_messageId (set_category i c ds) = map doc_messageId ds"
  by (induction ds) (simp_all add: set_category_def)

lemma es_put_Nil: "es_put d [] = [d]"
  by (simp add: es_put_def)

lemma sample_run2:
  "map doc_messageId (es_docs (processEmail sample_cfg sample_out
       (sample_parsed\<lparr>pm_messageId := Some ''<m2@x.example>''\<rparr>) sample_account ''INBOX''
       (log empty_world e))) = [''<m2@x.example>'']"
proof -
  let ?p = "sample_parsed\<lparr>pm_messageId := Some ''<m2@x.example>''\<rparr>"
  have e: "es_docs (log empty_world e) = []" by (simp add: log_def empty_world_def)
  then have nd: "\<not> is_duplicate sample_out ?p (log empty_world e)" by (simp add: is_duplicate_eq)
  have ok: "index_ok sample_out" "update_ok sample_out" by (simp_all add: sample_out_def)
  have m: "doc_messageId (new_doc sample_out ?p sample_account ''INBOX'') = ''<m2@x.example>''"
    by (simp add: new_doc_def emailDoc_of_def sample_raw2)
  have "es_docs (processEmail sample_cfg sample_out ?p sample_account ''INBOX'' (log empty_world e))
        = set_category (uuid sample_out) (classification sample_cfg sample_out)
            [new_doc sample_out ?p sample_account ''INBOX'']"
    using nd ok by (simp only: processEmail_es_docs e es_put_Nil simp_thms if_False)
  then show ?thesis by (simp only: set_category_messageId list.map m)
qed

text \<open>
  A batch of a malformed and a well-formed message: the second is ingested, and the
  fetch operation rejects instead of completing.
\<close>

theorem parse_error_rejects_batch_counterexample:
  "message_at sample_env 3 = Malformed
   \<and> fst (fetchEmailsBySeqNo sample_cfg sample_env sample_account [3, 4] ''INBOX'' empty_world)
       = Inl ParseError
   \<and> map doc_messageId
       (es_docs (snd (fetchEmailsBySeqNo sample_cfg sample_env sample_account [3, 4] ''INBOX''
                        empty_world))) = [''<m2@x.example>'']"
proof -
  have m: "message_at sample_env 3 = Malformed"
    "message_at sample_env 4 = Wellformed (sample_parsed\<lparr>pm_messageId := Some ''<m2@x.example>''\<rparr>)"
    "outcomes_at sample_env 4 = sample_out" "\<not> fetch_fails sample_env"
    by (simp_all add: sample_env_def)
  have s: "snd (processMessages sample_cfg sample_env sample_account ''INBOX'' [3, 4] empty_world)
           = processEmail sample_cfg sample_out
               (sample_parsed\<lparr>pm_messageId := Some ''<m2@x.example>''\<rparr>) sample_account ''INBOX''
               (log empty_world ErrFetchedEmail)"
    by (simp add: processMessages_Cons_snd m)
  have r: "promise_all (fst (processMessages sample_cfg sample_env sample_account ''INBOX'' [3, 4]
             empty_world)) = Inl ParseError"
    by (simp add: processMessages_rejects m)
  show ?thesis
    using m(1,4) s r sample_run2[of ErrFetchedEmail]
    by (simp add: fetchEmailsBySeqNo_def case_prod_beta)
qed

theorem parse_error_skips_one_and_rejects_batch_witness:
  "message_at sample_env 3 = Malformed \<and> \<not> fetch_fails sample_env
   \<and> message_at sample_env 4 \<noteq> Malformed
   \<and> effects (snd (fetchEmailsBySeqNo sample_cfg sample_env sample_account [3, 4] ''INBOX'' empty_world))
       = effects (snd (fetchEmailsBySeqNo sample_cfg sample_env sample_account [4] ''INBOX'' empty_world))
   \<and> fst (fetchEmailsBySeqNo sample_cfg sample_env sample_account [3, 4] ''INBOX'' empty_world)
       = Inl ParseError
   \<and> fst (fetchEmailsBySeqNo sample_cfg sample_env sample_account [4] ''INBOX'' empty_world) = Inr ()"
proof -
  have m: "message_at sample_env 3 = Malformed" "\<not> fetch_fails sample_env"
    "\<forall>n \<in> set ([] @ [4]). message_at sample_env n \<noteq> Malformed"
    by (simp_all add: sample_env_def)
  have n: "message_at sample_env 4 \<noteq> Malformed" by (simp add: sample_env_def)
  from parse_error_skips_one_and_rejects_batch[OF m(1,2), of sample_cfg sample_account "[]" "[4]"
      "''INBOX''" empty_world] m n
  show ?thesis by simp
qed

subsection \<open>Live mode\<close>

lemma processMessages_search_unseen:
  "processMessages cfg (env\<lparr>search_unseen := x\<rparr>) account folder ns w
   = processMessages cfg env account folder ns w"
proof (induction ns arbitrary: w)
  case Nil
  then show ?case by simp
next
  case (Cons n ns)
  show ?case
    by (cases "message_at env n") (simp_all add: processMessages.simps(2) Cons.IH)
qed

text \<open>
  C7 (amended). On a new-message notification the \<open>mail\<close> handler searches the
  unseen messages and, when there are some, fetches and runs the pipeline on the last
  one of the result only: the handler behaves as if the search had returned that
  message alone.
\<close>

theorem onMail_fetches_latest_only:
  assumes "search_unseen env = Some results" and "results \<noteq> []"
  shows "onMail cfg env account numNewMsgs w
           = snd (fetchEmailsBySeqNo cfg env account [last results] ''INBOX''
                    (log w (LogNewMail numNewMsgs (acc_email account))))
         \<and> onMail cfg env account numNewMsgs w
           = onMail cfg (env\<lparr>search_unseen := Some [last results]\<rparr>) account numNewMsgs w"
proof -
  have f: "\<And>x ns w0. fetchEmailsBySeqNo cfg (env\<lparr>search_unseen := x\<rparr>) account ns ''INBOX'' w0
           = fetchEmailsBySeqNo cfg env account ns ''INBOX'' w0"
    by (simp add: fetchEmailsBySeqNo_def processMessages_search_unseen)
  have 1: "onMail cfg env account numNewMsgs w
           = snd (fetchEmailsBySeqNo cfg env account [last results] ''INBOX''
                    (log w (LogNewMail numNewMsgs (acc_email account))))"
    using assms by (simp add: onMail_def Let_def)
  have 2: "onMail cfg (env\<lparr>search_unseen := Some [last results]\<rparr>) account numNewMsgs w
           = snd (fetchEmailsBySeqNo cfg env account [last results] ''INBOX''
                    (log w (LogNewMail numNewMsgs (acc_email account))))"
    by (simp add: onMail_def Let_def f)
  from 1 2 show ?thesis by simp
qed

lemma live_facts:
  "search_unseen live_env = Some [3, 4]"
  "message_at live_env 3 = Wellformed (sample_parsed\<lparr>pm_messageId := Some ''<m1@x.example>''\<rparr>)"
  "message_at live_env 4 = Wellformed (sample_parsed\<lparr>pm_messageId := Some ''<m2@x.example>''\<rparr>)"
  "outcomes_at live_env 4 = sample_out" "\<not> fetch_fails live_env"
  by (simp_all add: live_env_def sample_env_def)

lemma live_onMail:
  "onMail sample_cfg live_env sample_account 2 empty_world
   = processEmail sample_cfg sample_out (sample_parsed\<lparr>pm_messageId := Some ''<m2@x.example>''\<rparr>)
       sample_account ''INBOX'' (log empty_world (LogNewMail 2 (acc_email sample_account)))"
  by (simp add: onMail_def Let_def live_facts fetchEmailsBySeqNo_def processMessages_Cons_snd
      case_prod_beta)

theorem onMail_fetches_latest_only_witness:
  "search_unseen live_env = Some [3, 4] \<and> [3, 4] \<noteq> ([] :: nat list)
   \<and> onMail sample_cfg live_env sample_account 2 empty_world
       = snd (fetchEmailsBySeqNo sample_cfg live_env sample_account [4] ''INBOX''
                (log empty_world (LogNewMail 2 (acc_email sample_account))))"
proof -
  have a: "search_unseen live_env = Some [3, 4]" by (rule live_facts)
  have b: "[3, 4] \<noteq> ([] :: nat list)" by simp
  from onMail_fetches_latest_only[OF a b, of sample_cfg sample_account 2 empty_world] a
  show ?thesis by simp
qed

text \<open>
  Two unseen well-formed messages, none of them in the index: after the handler only
  the second has a record, and the classifier was called once.
\<close>

theorem onMail_skips_earlier_unseen_counterexample:
  "search_unseen live_env = Some [3, 4]
   \<and> message_at live_env 3 = Wellformed (sample_parsed\<lparr>pm_messageId := Some ''<m1@x.example>''\<rparr>)
   \<and> map doc_messageId (es_docs (onMail sample_cfg live_env sample_account 2 empty_world))
       = [''<m2@x.example>'']
   \<and> length (ai_calls (onMail sample_cfg live_env sample_account 2 empty_world)) = 1"
proof -
  let ?p = "sample_parsed\<lparr>pm_messageId := Some ''<m2@x.example>''\<rparr>"
  let ?w = "log empty_world (LogNewMail 2 (acc_email sample_account))"
  have e: "es_docs ?w = []" "ai_calls ?w = []" by (simp_all add: log_def empty_world_def)
  then have nd: "\<not> is_duplicate sample_out ?p ?w" by (simp add: is_duplicate_eq)
  have ok: "index_ok sample_out" "cfg_aiConfigured sample_cfg"
    by (simp_all add: sample_out_def sample_cfg_def)
  have a: "length (ai_calls (processEmail sample_cfg sample_out ?p sample_account ''INBOX'' ?w)) = 1"
    using nd ok by (simp only: processEmail_ai_calls e simp_thms if_True) simp
  show ?thesis
    using live_facts(1,2) sample_run2[of "LogNewMail 2 (acc_email sample_account)"] a
    by (simp only: live_onMail simp_thms)
qed

subsection \<open>Initial sync\<close>

lemma slice_last10: "slice (- 10) None xs = drop (length xs - 10) xs"
proof -
  have "nat (max (int (length xs) - 10) 0) = length xs - 10" by linarith
  then show ?thesis by (simp add: slice_def slice_index_def Let_def)
qed

lemma classification_valid: "classification cfg out \<in> set validCategories"
proof -
  obtain r w' where "categorizeEmail cfg out [] [] [] empty_world = (Inr r, w')"
    and v: "category r \<in> set validCategories"
    using categorizeEmail_Inr[of cfg out "[]" "[]" "[]" empty_world] by blast
  then have "r = \<lparr>category = classification cfg out\<rparr>"
    using categorizeEmail_fst[of cfg out "[]" "[]" "[]" empty_world] by simp
  with v show ?thesis by simp
qed

lemma has_record_iff:
  "has_record i ds = (\<exists>d \<in> set ds. doc_id d = i \<and> doc_aiCategory d \<in> set validCategories)"
  by (simp add: has_record_def list_ex_iff)

lemma es_put_has_record:
  assumes "has_record i ds" and "doc_aiCategory d \<in> set validCategories"
  shows "has_record i (es_put d ds)"
proof -
  from assms(1) obtain x where x: "x \<in> set ds" "doc_id x = i" "doc_aiCategory x \<in> set validCategories"
    by (auto simp: has_record_iff)
  show ?thesis
  proof (cases "doc_id d \<in> doc_id ` set ds")
    case False
    with x show ?thesis by (auto simp: has_record_iff es_put_def)
  next
    case True
    let ?f = "\<lambda>y. if doc_id y = doc_id d then d else y"
    have "?f x \<in> set (es_put d ds)" using True x(1) by (simp add: es_put_def)
    moreover have "doc_id (?f x) = i" using x(2) by simp
    moreover have "doc_aiCategory (?f x) \<in> set validCategories" using x(3) assms(2) by simp
    ultimately show ?thesis unfolding has_record_iff by blast
  qed
qed

lemma set_category_has_record:
  assumes "has_record i ds" and "c \<in> set validCategories"
  shows "has_record i (set_category j c ds)"
proof -
  from assms(1) obtain x where x: "x \<in> set ds" "doc_id x = i" "doc_aiCategory x \<in> set validCategories"
    by (auto simp: has_record_iff)
  let ?f = "\<lambda>y. if doc_id y = j then y\<lparr>doc_aiCategory := c\<rparr> else y"
  have "?f x \<in> set (set_category j c ds)" using x(1) by (simp add: set_category_def)
  moreover have "doc_id (?f x) = i" using x(2) by simp
  moreover have "doc_aiCategory (?f x) \<in> set validCategories" using x(3) assms(2) by simp
  ultimately show ?thesis unfolding has_record_iff by blast
qed

lemma new_doc_category: "doc_aiCategory (new_doc out parsed account folder) \<in> set validCategories"
  by (simp add: new_doc_def emailDoc_of_def validCategories_Uncategorized)

lemma existsByMessageId_es_docs: "es_docs (snd (existsByMessageId out m w)) = es_docs w"
  by (simp add: existsByMessageId_def findByMessageId_def log_def split: list.splits)

lemma advance_fst:
  "fst (advance cfg out account folder p w) =
     (case p of
        Parsing None \<Rightarrow> Settled ParseFailed
      | Parsing (Some parsed) \<Rightarrow> (if rawMessageId_of parsed \<noteq> [] then Looking parsed else Indexing parsed)
      | Looking parsed \<Rightarrow>
          (if fst (existsByMessageId out (rawMessageId_of parsed) w) then Settled WasDuplicate
           else Indexing parsed)
      | Indexing parsed \<Rightarrow> (if index_ok out then Classifying parsed else Settled WasCaught)
      | Classifying parsed \<Rightarrow> Updating parsed \<lparr>category = classification cfg out\<rparr>
      | Updating parsed c \<Rightarrow>
          (if update_ok out \<and> uuid out \<in> doc_id ` set (es_docs w)
           then (if category c = ''Interested'' then Notifying parsed c
                 else Settled (WasProcessed (category c)))
           else Settled WasCaught)
      | Notifying parsed c \<Rightarrow> Settled (WasProcessed (category c))
      | Settled r \<Rightarrow> Settled r)"
proof (cases p)
  case (Parsing buf)
  then show ?thesis by (cases buf) simp_all
next
  case (Looking parsed)
  then show ?thesis by (simp add: case_prod_beta)
next
  case (Indexing parsed)
  then show ?thesis by (simp add: indexEmail_def)
next
  case (Classifying parsed)
  let ?d = "emailDoc_of out parsed account folder (uuid out) (rawMessageId_of parsed)"
  obtain x w' where c: "categorizeEmail cfg out (doc_subject ?d) (doc_body ?d) (doc_from ?d) w = (x, w')"
    by (cases "categorizeEmail cfg out (doc_subject ?d) (doc_body ?d) (doc_from ?d) w")
  with categorizeEmail_fst[of cfg out "doc_subject ?d" "doc_body ?d" "doc_from ?d" w]
  have "x = Inr \<lparr>category = classification cfg out\<rparr>" by simp
  with c Classifying show ?thesis by (simp add: Let_def)
next
  case (Updating parsed c)
  then show ?thesis by (simp add: updateEmailCategory_def Let_def)
next
  case (Notifying parsed c)
  let ?d = "(emailDoc_of out parsed account folder (uuid out) (rawMessageId_of parsed))\<lparr>doc_aiCategory := category c\<rparr>"
  obtain x w' where t: "triggerInterestedWebhooks cfg out ?d w = (x, w')"
    by (cases "triggerInterestedWebhooks cfg out ?d w")
  with triggerInterestedWebhooks_all[of cfg out ?d w] have "x = Inr ()" by simp
  with t Notifying show ?thesis by (simp add: Let_def)
next
  case (Settled r)
  then show ?thesis by simp
qed

lemma advance_es_docs:
  "es_docs (snd (advance cfg out account folder p w)) =
     (case p of
        Indexing parsed \<Rightarrow>
          (if index_ok out then es_put (new_doc out parsed account folder) (es_docs w)
           else es_docs w)
      | Updating parsed c \<Rightarrow>
          (if update_ok out \<and> uuid out \<in> doc_id ` set (es_docs w)
           then set_category (uuid out) (category c) (es_docs w)
           else es_docs w)
      | _ \<Rightarrow> es_docs w)"
proof (cases p)
  case (Parsing buf)
  then show ?thesis by (cases buf) (simp_all add: log_def)
next
  case (Looking parsed)
  then show ?thesis by (simp add: case_prod_beta existsByMessageId_es_docs log_def)
next
  case (Indexing parsed)
  then show ?thesis by (simp add: indexEmail_def new_doc_def log_def)
next
  case (Classifying parsed)
  let ?d = "emailDoc_of out parsed account folder (uuid out) (rawMessageId_of parsed)"
  obtain x w' where c: "categorizeEmail cfg out (doc_subject ?d) (doc_body ?d) (doc_from ?d) w = (x, w')"
    by (cases "categorizeEmail cfg out (doc_subject ?d) (doc_body ?d) (doc_from ?d) w")
  with categorizeEmail_snd(1)[of cfg out "doc_subject ?d" "doc_body ?d" "doc_from ?d" w]
  have "es_docs w' = es_docs w" by simp
  with c Classifying show ?thesis by (simp add: Let_def log_def split: sum.splits)
next
  case (Updating parsed c)
  then show ?thesis by (simp add: updateEmailCategory_def Let_def set_category_def log_def)
next
  case (Notifying parsed c)
  let ?d = "(emailDoc_of out parsed account folder (uuid out) (rawMessageId_of parsed))\<lparr>doc_aiCategory := category c\<rparr>"
  obtain x w' where t: "triggerInterestedWebhooks cfg out ?d w = (x, w')"
    by (cases "triggerInterestedWebhooks cfg out ?d w")
  with trigger_es_docs[of cfg out ?d w] have "es_docs w' = es_docs w" by simp
  with t Notifying show ?thesis by (simp add: Let_def log_def split: sum.splits)
next
  case (Settled r)
  then show ?thesis by simp
qed

lemma advance_Looking_dup:
  assumes "is_duplicate out parsed w"
  shows "advance cfg out account folder (Looking parsed) w =
           (Settled WasDuplicate,
            log w (LogDuplicate (rawMessageId_of parsed) (acc_email account)))"
proof -
  from assms have e: "fst (existsByMessageId out (rawMessageId_of parsed) w)"
    by (simp add: is_duplicate_def)
  from assms have "search_ok out" by (simp add: is_duplicate_eq)
  then have "snd (existsByMessageId out (rawMessageId_of parsed) w) = w"
    by (simp add: existsByMessageId_def findByMessageId_def split: list.splits)
  with e show ?thesis by (simp add: case_prod_beta)
qed

lemma advance_Looking_new:
  assumes "\<not> is_duplicate out parsed w" and "rawMessageId_of parsed \<noteq> []"
  shows "advance cfg out account folder (Looking parsed) w
         = (Indexing parsed, after_check out parsed w)"
  using assms by (simp add: is_duplicate_def after_check_def case_prod_beta)

lemma advance_Indexing:
  "advance cfg out account folder (Indexing parsed) (after_check out parsed w) =
     (if index_ok out then (Classifying parsed, after_index out parsed account folder w)
      else (Settled WasCaught,
            log (log (after_check out parsed w) ErrIndexingEmail) ErrProcessingEmail))"
  by (simp add: indexEmail_def after_index_def new_doc_def)

lemma advance_Classifying:
  "advance cfg out account folder (Classifying parsed) (after_index out parsed account folder w) =
     (Updating parsed \<lparr>category = classification cfg out\<rparr>,
      after_classify cfg out parsed account folder w)"
proof -
  let ?d = "new_doc out parsed account folder"
  let ?w2 = "after_index out parsed account folder w"
  have a: "categorizeEmail cfg out (doc_subject ?d) (doc_body ?d) (doc_from ?d) ?w2
           = (Inr \<lparr>category = classification cfg out\<rparr>,
              after_classify cfg out parsed account folder w)"
    using categorizeEmail_fst[of cfg out "doc_subject ?d" "doc_body ?d" "doc_from ?d" ?w2]
    by (simp add: after_classify_def prod_eq_iff)
  show ?thesis using a by (simp add: Let_def new_doc_def)
qed

lemma advance_Updating:
  "advance cfg out account folder (Updating parsed \<lparr>category = classification cfg out\<rparr>)
     (after_classify cfg out parsed account folder w) =
     (if update_ok out
      then (if classification cfg out = ''Interested''
            then (Notifying parsed \<lparr>category = classification cfg out\<rparr>,
                  after_update cfg out parsed account folder w)
            else (Settled (WasProcessed (classification cfg out)),
                  log (after_update cfg out parsed account folder w)
                    (LogProcessed (doc_subject (new_doc out parsed account folder))
                       (classification cfg out))))
      else (Settled WasCaught,
            log (log (after_classify cfg out parsed account folder w) ErrUpdatingCategory)
              ErrProcessingEmail))"
proof -
  let ?doc = "new_doc out parsed account folder"
  let ?w3 = "after_classify cfg out parsed account folder w"
  have "?doc \<in> set (es_docs ?w3)"
    by (simp add: after_classify_def categorizeEmail_snd after_index_def es_put_mem)
  then have "doc_id ?doc \<in> doc_id ` set (es_docs ?w3)" by (rule imageI)
  then have ids: "uuid out \<in> doc_id ` set (es_docs ?w3)" by (simp only: new_doc_id)
  show ?thesis using ids
    by (simp add: updateEmailCategory_def after_update_def set_category_def Let_def new_doc_def)
qed

lemma advance_Notifying:
  "advance cfg out account folder (Notifying parsed \<lparr>category = c\<rparr>) w =
     (Settled (WasProcessed c),
      log (snd (triggerInterestedWebhooks cfg out
                  ((new_doc out parsed account folder)\<lparr>doc_aiCategory := c\<rparr>) w))
        (LogProcessed (doc_subject (new_doc out parsed account folder)) c))"
proof -
  let ?d = "(new_doc out parsed account folder)\<lparr>doc_aiCategory := c\<rparr>"
  obtain x w' where t: "triggerInterestedWebhooks cfg out ?d w = (x, w')"
    by (cases "triggerInterestedWebhooks cfg out ?d w")
  with triggerInterestedWebhooks_all[of cfg out ?d w] have "x = Inr ()" by simp
  with t show ?thesis by (simp add: Let_def new_doc_def)
qed

declare advance.simps [simp del]

lemma advances_Settled: "advances cfg out account folder k (Settled r, w) = (Settled r, w)"
  by (induction k) (simp_all add: advance.simps)

lemma advances_from_Indexing:
  assumes "\<not> is_duplicate out parsed w"
  shows "advances cfg out account folder (Suc (Suc (Suc (Suc k))))
           (Indexing parsed, after_check out parsed w)
         = (Settled (outcome_of cfg out parsed w), processEmail cfg out parsed account folder w)"
proof (cases "index_ok out")
  case False
  with assms show ?thesis
    by (simp add: advance_Indexing advances_Settled outcome_of_def processEmail_new)
next
  case io: True
  show ?thesis
  proof (cases "update_ok out")
    case False
    with assms io show ?thesis
      by (simp add: advance_Indexing advance_Classifying advance_Updating advances_Settled
          outcome_of_def processEmail_new)
  next
    case uo: True
    show ?thesis
    proof (cases "classification cfg out = ''Interested''")
      case False
      with assms io uo show ?thesis
        by (simp add: advance_Indexing advance_Classifying advance_Updating advances_Settled
            outcome_of_def processEmail_new)
    next
      case True
      have u: "advance cfg out account folder (Updating parsed \<lparr>category = classification cfg out\<rparr>)
                 (after_classify cfg out parsed account folder w)
               = (Notifying parsed \<lparr>category = classification cfg out\<rparr>,
                  after_update cfg out parsed account folder w)"
        unfolding advance_Updating using uo True by simp
      have "advances cfg out account folder (Suc (Suc (Suc (Suc k))))
              (Indexing parsed, after_check out parsed w)
            = advances cfg out account folder (Suc k)
                (Notifying parsed \<lparr>category = classification cfg out\<rparr>,
                 after_update cfg out parsed account folder w)"
        using io by (simp add: advance_Indexing advance_Classifying u)
      also have "\<dots> = (Settled (WasProcessed (classification cfg out)),
                        processEmail cfg out parsed account folder w)"
        using assms io uo True
        by (simp add: advance_Notifying advances_Settled processEmail_new)
      finally show ?thesis using assms io uo by (simp add: outcome_of_def)
    qed
  qed
qed

lemma advances_six:
  "advances cfg out account folder 6 (Parsing (Some parsed), w)
   = (Settled (outcome_of cfg out parsed w), processEmail cfg out parsed account folder w)"
proof (cases "is_duplicate out parsed w")
  case True
  then have r: "rawMessageId_of parsed \<noteq> []" by (simp add: is_duplicate_def)
  have "advances cfg out account folder 6 (Parsing (Some parsed), w)
        = advances cfg out account folder 4
            (Settled WasDuplicate, log w (LogDuplicate (rawMessageId_of parsed) (acc_email account)))"
    using r True by (simp add: eval_nat_numeral advance.simps(2) advance_Looking_dup)
  then show ?thesis using True by (simp add: advances_Settled outcome_of_def processEmail_dup)
next
  case False
  show ?thesis
  proof (cases "rawMessageId_of parsed = []")
    case True
    then have "advances cfg out account folder 6 (Parsing (Some parsed), w)
        = advances cfg out account folder (Suc (Suc (Suc (Suc (Suc 0)))))
            (Indexing parsed, after_check out parsed w)"
      by (simp add: eval_nat_numeral advance.simps(2) after_check_def)
    also have "\<dots> = (Settled (outcome_of cfg out parsed w),
                      processEmail cfg out parsed account folder w)"
      using False by (rule advances_from_Indexing)
    finally show ?thesis .
  next
    case r: False
    then have "advances cfg out account folder 6 (Parsing (Some parsed), w)
        = advances cfg out account folder (Suc (Suc (Suc (Suc 0))))
            (Indexing parsed, after_check out parsed w)"
      using False by (simp add: eval_nat_numeral advance.simps(2) advance_Looking_new)
    also have "\<dots> = (Settled (outcome_of cfg out parsed w),
                      processEmail cfg out parsed account folder w)"
      using False by (rule advances_from_Indexing)
    finally show ?thesis .
  qed
qed

lemma advances_six_malformed:
  "advances cfg out account folder 6 (Parsing None, w) = (Settled ParseFailed, log w ErrFetchedEmail)"
  by (simp add: eval_nat_numeral advance.simps(1) advances_Settled)

lemma resume_mid:
  "resume cfg env account folder (length pre) \<lparr>pipelines = pre @ (n, p) # post, shared = w\<rparr>
   = \<lparr>pipelines = pre @ (n, fst (advance cfg (outcomes_at env n) account folder p w)) # post,
      shared = snd (advance cfg (outcomes_at env n) account folder p w)\<rparr>"
  by (simp add: resume_def case_prod_beta)

lemma run_schedule_Cons_raw:
  "run_schedule cfg env account folder (i # sched) b
     = run_schedule cfg env account folder sched (resume cfg env account folder i b)"
  by (simp add: run_schedule_def)

lemma run_schedule_replicate:
  "run_schedule cfg env account folder (replicate k (length pre))
     \<lparr>pipelines = pre @ (n, p) # post, shared = w\<rparr>
   = \<lparr>pipelines = pre @ (n, fst (advances cfg (outcomes_at env n) account folder k (p, w))) # post,
      shared = snd (advances cfg (outcomes_at env n) account folder k (p, w))\<rparr>"
proof (induction k arbitrary: p w)
  case 0
  then show ?case by (simp add: run_schedule_def)
next
  case (Suc k)
  show ?case
    by (simp add: run_schedule_Cons_raw resume_mid Suc.IH)
qed

lemma advance_keeps_record:
  assumes "consistent cfg out src p" and "has_record k (es_docs w)"
  shows "has_record k (es_docs (snd (advance cfg out account folder p w)))"
proof (cases p)
  case (Indexing parsed)
  have "has_record k (es_put (new_doc out parsed account folder) (es_docs w))"
    using assms(2) new_doc_category by (rule es_put_has_record)
  with assms(2) Indexing show ?thesis by (simp add: advance_es_docs)
next
  case (Updating parsed c)
  with assms(1) have "category c \<in> set validCategories" by (simp add: classification_valid)
  with assms(2) have "has_record k (set_category (uuid out) (category c) (es_docs w))"
    by (rule set_category_has_record)
  with assms(2) Updating show ?thesis by (simp add: advance_es_docs)
qed (use assms(2) in \<open>simp_all add: advance_es_docs\<close>)

lemma has_record_id: "has_record k ds \<Longrightarrow> k \<in> doc_id ` set ds"
  by (auto simp: has_record_iff)

lemma advance_ok:
  assumes "consistent cfg out src p"
    and "inserted out p \<longrightarrow> has_record (uuid out) (es_docs w)"
  shows "consistent cfg out src (fst (advance cfg out account folder p w))
         \<and> (inserted out (fst (advance cfg out account folder p w))
              \<longrightarrow> has_record (uuid out) (es_docs (snd (advance cfg out account folder p w))))"
proof (cases p)
  case (Parsing buf)
  with assms show ?thesis
    by (cases buf; cases src) (simp_all add: advance_fst)
next
  case (Looking parsed)
  with assms show ?thesis by (simp add: advance_fst existsByMessageId_fst)
next
  case (Indexing parsed)
  let ?nd = "new_doc out parsed account folder"
  have "?nd \<in> set (es_put ?nd (es_docs w))" by (rule es_put_mem)
  then have "has_record (uuid out) (es_put ?nd (es_docs w))"
    unfolding has_record_iff using new_doc_id[of out parsed account folder]
      new_doc_category[of out parsed account folder] by blast
  with assms Indexing show ?thesis by (simp add: advance_fst advance_es_docs)
next
  case (Classifying parsed)
  with assms show ?thesis by (simp add: advance_fst advance_es_docs)
next
  case (Updating parsed c)
  with assms have h: "has_record (uuid out) (es_docs w)" by simp
  then have i: "uuid out \<in> doc_id ` set (es_docs w)" by (rule has_record_id)
  from assms(1) Updating have "category c \<in> set validCategories" by (simp add: classification_valid)
  with h have "has_record (uuid out) (set_category (uuid out) (category c) (es_docs w))"
    by (rule set_category_has_record)
  with assms Updating h i show ?thesis by (simp add: advance_fst advance_es_docs)
next
  case (Notifying parsed c)
  with assms show ?thesis by (simp add: advance_fst advance_es_docs)
next
  case (Settled r)
  with assms show ?thesis by (simp add: advance_fst advance_es_docs)
qed







lemma resume_shared:
  "shared (resume cfg env account folder i b)
     = (if i < length (pipelines b)
        then snd (advance cfg (outcomes_at env (fst (pipelines b ! i))) account folder
                    (snd (pipelines b ! i)) (shared b))
        else shared b)"
  by (simp add: resume_def case_prod_beta)

lemma resume_batch_ok:
  assumes "batch_ok cfg env b"
  shows "batch_ok cfg env (resume cfg env account folder i b)"
proof (cases "i < length (pipelines b)")
  case False
  with assms show ?thesis by (simp add: resume_def)
next
  case True
  let ?n = "fst (pipelines b ! i)"
  let ?p = "snd (pipelines b ! i)"
  let ?out = "outcomes_at env ?n"
  let ?adv = "advance cfg ?out account folder ?p (shared b)"
  let ?b' = "resume cfg env account folder i b"
  from True have m: "(?n, ?p) \<in> set (pipelines b)" by simp
  with assms have c: "consistent cfg ?out (message_at env ?n) ?p"
    and h: "inserted ?out ?p \<longrightarrow> has_record (uuid ?out) (es_docs (shared b))"
    unfolding batch_ok_def by blast+
  note ok = advance_ok[OF c h, of account folder]
  have ps: "pipelines ?b' = (pipelines b)[i := (?n, fst ?adv)]"
    using True by (simp add: resume_def case_prod_beta)
  have sh: "shared ?b' = snd ?adv" using True by (simp add: resume_shared)
  show ?thesis unfolding batch_ok_def
  proof (intro ballI, clarify)
    fix n q
    assume "(n, q) \<in> set (pipelines ?b')"
    then have "(n, q) = (?n, fst ?adv) \<or> (n, q) \<in> set (pipelines b)"
      unfolding ps using set_update_subset_insert[of "pipelines b" i "(?n, fst ?adv)"] by blast
    then show "consistent cfg (outcomes_at env n) (message_at env n) q
         \<and> (inserted (outcomes_at env n) q
              \<longrightarrow> has_record (uuid (outcomes_at env n)) (es_docs (shared ?b')))"
    proof
      assume "(n, q) = (?n, fst ?adv)"
      with ok sh show ?thesis by simp
    next
      assume old: "(n, q) \<in> set (pipelines b)"
      with assms have c': "consistent cfg (outcomes_at env n) (message_at env n) q"
        and h': "inserted (outcomes_at env n) q
                  \<longrightarrow> has_record (uuid (outcomes_at env n)) (es_docs (shared b))"
        unfolding batch_ok_def by blast+
      have "inserted (outcomes_at env n) q
            \<longrightarrow> has_record (uuid (outcomes_at env n)) (es_docs (snd ?adv))"
        using h' advance_keeps_record[OF c] by blast
      with c' sh show ?thesis by simp
    qed
  qed
qed

lemma run_schedule_Nil: "run_schedule cfg env account folder [] b = b"
  by (simp add: run_schedule_def)

lemma run_schedule_Cons:
  "run_schedule cfg env account folder (i # sched) b
     = run_schedule cfg env account folder sched (resume cfg env account folder i b)"
  by (simp add: run_schedule_def)

lemma run_schedule_append:
  "run_schedule cfg env account folder (xs @ ys) b
     = run_schedule cfg env account folder ys (run_schedule cfg env account folder xs b)"
  by (simp add: run_schedule_def)



lemma run_schedule_batch_ok:
  "batch_ok cfg env b \<Longrightarrow> batch_ok cfg env (run_schedule cfg env account folder sched b)"
proof (induction sched arbitrary: b)
  case Nil
  then show ?case by (simp add: run_schedule_Nil)
next
  case (Cons i sched)
  from Cons.prems have "batch_ok cfg env (resume cfg env account folder i b)"
    by (rule resume_batch_ok)
  then show ?case unfolding run_schedule_Cons by (rule Cons.IH)
qed




lemma startBatch_ok: "batch_ok cfg env (startBatch env seqNos w)"
  by (auto simp: batch_ok_def startBatch_def)










lemma processMessages_skip_Missing:
  "snd (processMessages cfg env account folder ns w)
   = snd (processMessages cfg env account folder (filter (\<lambda>n. message_at env n \<noteq> Missing) ns) w)"
proof (induction ns arbitrary: w)
  case Nil
  then show ?case by simp
next
  case (Cons n ns)
  show ?case
    by (cases "message_at env n") (simp_all add: processMessages_Cons_snd Cons.IH)
qed

lemma run_schedule_in_order:
  assumes "\<forall>n \<in> set ns. message_at env n \<noteq> Missing"
  shows "shared (run_schedule cfg env account folder
                   (concat (map (replicate 6) [length pre ..< length pre + length ns]))
                   \<lparr>pipelines = pre @ map (\<lambda>n. (n, Parsing (case message_at env n of
                                                               Wellformed parsed \<Rightarrow> Some parsed
                                                             | _ \<Rightarrow> None))) ns,
                    shared = w\<rparr>)
         = snd (processMessages cfg env account folder ns w)"
  using assms
proof (induction ns arbitrary: pre w)
  case Nil
  then show ?case by (simp add: run_schedule_Nil)
next
  case (Cons n ns)
  let ?buf = "\<lambda>n. case message_at env n of Wellformed parsed \<Rightarrow> Some parsed | _ \<Rightarrow> None"
  let ?X = "advances cfg (outcomes_at env n) account folder 6 (Parsing (?buf n), w)"
  let ?rest = "map (\<lambda>n. (n, Parsing (?buf n))) ns"
  from Cons.prems have nm: "message_at env n \<noteq> Missing"
    and rest: "\<forall>n \<in> set ns. message_at env n \<noteq> Missing" by simp_all
  have sched: "concat (map (replicate 6) [length pre ..< length pre + length (n # ns)])
        = replicate 6 (length pre)
          @ concat (map (replicate 6) [length (pre @ [(n, fst ?X)])
                                        ..< length (pre @ [(n, fst ?X)]) + length ns])"
  proof -
    have "[length pre ..< length pre + Suc (length ns)]
          = length pre # [Suc (length pre) ..< length pre + Suc (length ns)]"
      by (rule upt_conv_Cons) simp
    then show ?thesis by (simp del: upt_Suc)
  qed
  have "run_schedule cfg env account folder
          (concat (map (replicate 6) [length pre ..< length pre + length (n # ns)]))
          \<lparr>pipelines = pre @ map (\<lambda>n. (n, Parsing (?buf n))) (n # ns), shared = w\<rparr>
        = run_schedule cfg env account folder
            (concat (map (replicate 6) [length (pre @ [(n, fst ?X)])
                                        ..< length (pre @ [(n, fst ?X)]) + length ns]))
            (run_schedule cfg env account folder (replicate 6 (length pre))
               \<lparr>pipelines = pre @ (n, Parsing (?buf n)) # ?rest, shared = w\<rparr>)"
    by (simp only: sched run_schedule_append list.map)
  also have "\<dots> = run_schedule cfg env account folder
            (concat (map (replicate 6) [length (pre @ [(n, fst ?X)])
                                        ..< length (pre @ [(n, fst ?X)]) + length ns]))
            \<lparr>pipelines = (pre @ [(n, fst ?X)]) @ ?rest, shared = snd ?X\<rparr>"
    by (simp only: run_schedule_replicate append_assoc append_Cons append_Nil)
  finally have "shared (run_schedule cfg env account folder
          (concat (map (replicate 6) [length pre ..< length pre + length (n # ns)]))
          \<lparr>pipelines = pre @ map (\<lambda>n. (n, Parsing (?buf n))) (n # ns), shared = w\<rparr>)
        = snd (processMessages cfg env account folder ns (snd ?X))"
    by (simp only: Cons.IH[OF rest])
  moreover have "snd ?X = (case message_at env n of
                             Missing \<Rightarrow> w
                           | Malformed \<Rightarrow> log w ErrFetchedEmail
                           | Wellformed parsed \<Rightarrow>
                               processEmail cfg (outcomes_at env n) parsed account folder w)"
    using nm by (cases "message_at env n") (simp_all add: advances_six advances_six_malformed)
  ultimately show ?case by (simp only: processMessages_Cons_snd)
qed

lemma processMessages_in_order:
  "shared (run_schedule cfg env account folder
             (in_order (length (pipelines (startBatch env ns w)))) (startBatch env ns w))
   = snd (processMessages cfg env account folder ns w)"
proof -
  let ?ns = "filter (\<lambda>n. message_at env n \<noteq> Missing) ns"
  have "\<forall>n \<in> set ?ns. message_at env n \<noteq> Missing" by simp
  from run_schedule_in_order[OF this, of cfg account folder "[]" w]
  have "shared (run_schedule cfg env account folder (in_order (length ?ns)) (startBatch env ns w))
        = snd (processMessages cfg env account folder ?ns w)"
    by (simp add: in_order_def startBatch_def)
  moreover have "length (pipelines (startBatch env ns w)) = length ?ns"
    by (simp add: startBatch_def)
  ultimately show ?thesis by (simp only: processMessages_skip_Missing[symmetric])
qed

lemma performInitialSync_effects:
  assumes "openBox_ok env" and "search_all env = Some results" and "results \<noteq> []"
    and "\<not> fetch_fails env"
  shows "effects (snd (performInitialSync cfg env account w))
         = effects (snd (processMessages cfg env account ''INBOX''
                          (drop (length results - 10) results) w))"
proof -
  let ?lim = "drop (length results - 10) results"
  let ?w2 = "log (log w (LogStartingInitialSync (acc_email account)))
               (LogFound (length results) (length ?lim) (acc_email account))"
  let ?pm = "processMessages cfg env account ''INBOX'' ?lim"
  have e: "effects ?w2 = effects w" by (simp add: effects_log)
  have "snd (performInitialSync cfg env account w)
        = (case promise_all (fst (?pm ?w2)) of
             Inl e \<Rightarrow> snd (?pm ?w2)
           | Inr _ \<Rightarrow> log (snd (?pm ?w2)) (LogInitialSyncCompleted (acc_email account)))"
    using assms
    by (simp add: performInitialSync_def Let_def slice_last10 fetchEmailsBySeqNo_def
        case_prod_beta split: sum.splits)
  then have "effects (snd (performInitialSync cfg env account w)) = effects (snd (?pm ?w2))"
    by (simp add: effects_log split: sum.splits)
  also have "\<dots> = effects (snd (?pm w))" using e by (rule processMessages_effects_cong)
  finally show ?thesis .
qed

lemma performInitialSync_in_order:
  assumes "openBox_ok env" and "search_all env = Some results" and "results \<noteq> []"
    and "\<not> fetch_fails env"
  shows "effects (snd (performInitialSync cfg env account w))
         = effects (shared (run_schedule cfg env account ''INBOX''
                              (in_order (length (pipelines
                                 (startBatch env (slice (- 10) None results) w))))
                              (startBatch env (slice (- 10) None results) w)))"
  using performInitialSync_effects[OF assms, of cfg account w]
  by (simp only: processMessages_in_order slice_last10)










subsection \<open>Pipelines that share a message identifier\<close>

lemma resume_first:
  "resume cfg env account folder 0 \<lparr>pipelines = (n, p) # post, shared = w\<rparr>
   = \<lparr>pipelines = (n, fst (advance cfg (outcomes_at env n) account folder p w)) # post,
      shared = snd (advance cfg (outcomes_at env n) account folder p w)\<rparr>"
  using resume_mid[of cfg env account folder "[]" n p post w] by simp

lemma resume_second:
  "resume cfg env account folder (Suc 0) \<lparr>pipelines = x # (n, p) # post, shared = w\<rparr>
   = \<lparr>pipelines = x # (n, fst (advance cfg (outcomes_at env n) account folder p w)) # post,
      shared = snd (advance cfg (outcomes_at env n) account folder p w)\<rparr>"
  using resume_mid[of cfg env account folder "[x]" n p post w] by simp

lemma run_schedule_keeps_record:
  "batch_ok cfg env b \<Longrightarrow> has_record k (es_docs (shared b)) \<Longrightarrow>
   has_record k (es_docs (shared (run_schedule cfg env account folder sched b)))"
proof (induction sched arbitrary: b)
  case Nil
  then show ?case by (simp add: run_schedule_Nil)
next
  case (Cons i sched)
  let ?b' = "resume cfg env account folder i b"
  have ok: "batch_ok cfg env ?b'" using Cons.prems(1) by (rule resume_batch_ok)
  have "has_record k (es_docs (shared ?b'))"
  proof (cases "i < length (pipelines b)")
    case False
    with Cons.prems(2) show ?thesis by (simp add: resume_def)
  next
    case True
    then have "(fst (pipelines b ! i), snd (pipelines b ! i)) \<in> set (pipelines b)" by simp
    with Cons.prems(1)
    have "consistent cfg (outcomes_at env (fst (pipelines b ! i)))
            (message_at env (fst (pipelines b ! i))) (snd (pipelines b ! i))"
      unfolding batch_ok_def by blast
    from advance_keeps_record[OF this Cons.prems(2)] True show ?thesis
      by (simp add: resume_shared)
  qed
  with ok show ?case unfolding run_schedule_Cons by (rule Cons.IH)
qed

lemma twin_facts:
  "message_at twin_env n = Wellformed sample_parsed"
  "search_ok (outcomes_at twin_env n)" "index_ok (outcomes_at twin_env n)"
  "update_ok (outcomes_at twin_env n)"
  "uuid (outcomes_at twin_env n) = ''uuid-'' @ show_nat n"
  by (simp_all add: twin_env_def sample_env_def sample_out_def)

lemma twin_uuids: "''uuid-'' @ show_nat 3 = ''uuid-3''" "''uuid-'' @ show_nat 4 = ''uuid-4''"
  by code_simp+

lemma twin_digits: "show_nat 3 = ''3''" "show_nat 4 = ''4''"
  by code_simp+

lemma twin_classification: "classification sample_cfg (outcomes_at twin_env n) = ''Interested''"
  by (simp add: twin_env_def sample_env_def classification_def sample_cfg_def sample_out_def
      jfield_def validCategories_def)

lemma in_turn_two:
  "in_turn 2 = [0, Suc 0, 0, Suc 0, 0, Suc 0] @ [0, Suc 0, 0, Suc 0, 0, Suc 0]"
  by (simp add: in_turn_def eval_nat_numeral upt_rec)

lemma advance_Parsing_id:
  "rawMessageId_of parsed \<noteq> [] \<Longrightarrow>
   advance cfg out account folder (Parsing (Some parsed)) w = (Looking parsed, w)"
  by (simp add: advance.simps)

lemma advance_Looking_empty:
  assumes "es_docs w = []" and "search_ok out" and "rawMessageId_of parsed \<noteq> []"
  shows "advance cfg out account folder (Looking parsed) w = (Indexing parsed, w)"
proof -
  from assms(1) have "\<not> is_duplicate out parsed w" by (simp add: is_duplicate_eq)
  from advance_Looking_new[OF this assms(3)] assms(2) show ?thesis by (simp add: after_check_eq)
qed

lemma advance_Indexing_ok:
  assumes "search_ok out" and "index_ok out"
  shows "advance cfg out account folder (Indexing parsed) w
         = (Classifying parsed, after_index out parsed account folder w)"
proof -
  from assms(1) have a: "after_check out parsed w = w" by (simp add: after_check_eq)
  from advance_Indexing[of cfg out account folder parsed w] assms(2) show ?thesis
    by (simp add: a)
qed

text \<open>
  The schedule matters. Two messages of one batch carry the same message identifier
  and the index is empty. When the pipelines are resumed in turn, both lookups are
  answered before either insert, and both messages get a record; when the pipelines
  run one after the other, the second is skipped as a duplicate.
\<close>

lemma shared_id_in_turn:
  "has_record ''uuid-3''
     (es_docs (shared (run_schedule sample_cfg twin_env sample_account ''INBOX'' (in_turn 2)
                         (startBatch twin_env [3, 4] empty_world))))
   \<and> has_record ''uuid-4''
     (es_docs (shared (run_schedule sample_cfg twin_env sample_account ''INBOX'' (in_turn 2)
                         (startBatch twin_env [3, 4] empty_world))))"
proof -
  let ?b0 = "startBatch twin_env [3, 4] empty_world"
  let ?run = "run_schedule sample_cfg twin_env sample_account ''INBOX''"
  let ?o3 = "outcomes_at twin_env 3"
  let ?o4 = "outcomes_at twin_env 4"
  let ?w5 = "after_index ?o3 sample_parsed sample_account ''INBOX'' empty_world"
  let ?w6 = "after_index ?o4 sample_parsed sample_account ''INBOX'' ?w5"
  have r: "rawMessageId_of sample_parsed \<noteq> []" by (simp add: sample_raw)
  have e: "es_docs empty_world = []" by (simp add: empty_world_def)
  have b0: "?b0 = \<lparr>pipelines = [(3, Parsing (Some sample_parsed)), (4, Parsing (Some sample_parsed))],
                   shared = empty_world\<rparr>"
    by (simp add: startBatch_def twin_facts(1))
  have b4: "?run [0, Suc 0, 0, Suc 0] ?b0
            = \<lparr>pipelines = [(3, Indexing sample_parsed), (4, Indexing sample_parsed)],
               shared = empty_world\<rparr>"
    unfolding b0
    by (simp add: run_schedule_Cons run_schedule_Nil resume_first resume_second
        advance_Parsing_id[OF r] advance_Looking_empty[OF e twin_facts(2) r])
  have b6: "?run [0, Suc 0, 0, Suc 0, 0, Suc 0] ?b0
            = \<lparr>pipelines = [(3, Classifying sample_parsed), (4, Classifying sample_parsed)],
               shared = ?w6\<rparr>"
  proof -
    have "?run [0, Suc 0, 0, Suc 0, 0, Suc 0] ?b0
          = ?run [0, Suc 0] (?run [0, Suc 0, 0, Suc 0] ?b0)"
      using run_schedule_append[of sample_cfg twin_env sample_account "''INBOX''"
          "[0, Suc 0, 0, Suc 0]" "[0, Suc 0]" ?b0] by simp
    then show ?thesis unfolding b4
      by (simp add: run_schedule_Cons run_schedule_Nil resume_first resume_second
          advance_Indexing_ok[OF twin_facts(2) twin_facts(3)])
  qed
  let ?nd3 = "new_doc ?o3 sample_parsed sample_account ''INBOX''"
  let ?nd4 = "new_doc ?o4 sample_parsed sample_account ''INBOX''"
  have d6: "es_docs ?w6 = es_put ?nd4 (es_put ?nd3 [])"
    by (simp add: after_stage_es_docs e)
  have "?nd3 \<in> set (es_put ?nd3 [])" by (rule es_put_mem)
  then have "has_record (uuid ?o3) (es_put ?nd3 [])"
    unfolding has_record_iff using new_doc_id[of ?o3 sample_parsed sample_account "''INBOX''"]
      new_doc_category[of ?o3 sample_parsed sample_account "''INBOX''"] by blast
  then have h3: "has_record (uuid ?o3) (es_docs ?w6)"
    unfolding d6 using new_doc_category by (rule es_put_has_record)
  have "?nd4 \<in> set (es_put ?nd4 (es_put ?nd3 []))" by (rule es_put_mem)
  then have h4: "has_record (uuid ?o4) (es_docs ?w6)"
    unfolding d6 has_record_iff using new_doc_id[of ?o4 sample_parsed sample_account "''INBOX''"]
      new_doc_category[of ?o4 sample_parsed sample_account "''INBOX''"] by blast
  have ok: "batch_ok sample_cfg twin_env (?run [0, Suc 0, 0, Suc 0, 0, Suc 0] ?b0)"
    using startBatch_ok by (rule run_schedule_batch_ok)
  have fin: "?run (in_turn 2) ?b0
             = ?run [0, Suc 0, 0, Suc 0, 0, Suc 0] (?run [0, Suc 0, 0, Suc 0, 0, Suc 0] ?b0)"
    by (simp only: in_turn_two run_schedule_append)
  have s6: "shared (?run [0, Suc 0, 0, Suc 0, 0, Suc 0] ?b0) = ?w6" by (simp only: b6 batch.simps)
  from h3 have "has_record (uuid ?o3) (es_docs (shared (?run [0, Suc 0, 0, Suc 0, 0, Suc 0] ?b0)))"
    by (simp only: s6)
  with ok have f3: "has_record (uuid ?o3) (es_docs (shared (?run (in_turn 2) ?b0)))"
    unfolding fin by (rule run_schedule_keeps_record)
  from h4 have "has_record (uuid ?o4) (es_docs (shared (?run [0, Suc 0, 0, Suc 0, 0, Suc 0] ?b0)))"
    by (simp only: s6)
  with ok have f4: "has_record (uuid ?o4) (es_docs (shared (?run (in_turn 2) ?b0)))"
    unfolding fin by (rule run_schedule_keeps_record)
  from f3 f4 show ?thesis by (simp only: twin_facts(5) twin_uuids simp_thms)
qed

lemma shared_id_in_order:
  "map doc_id
     (es_docs (shared (run_schedule sample_cfg twin_env sample_account ''INBOX'' (in_order 2)
                         (startBatch twin_env [3, 4] empty_world)))) = [''uuid-3'']"
proof -
  let ?b0 = "startBatch twin_env [3, 4] empty_world"
  let ?o3 = "outcomes_at twin_env 3"
  let ?o4 = "outcomes_at twin_env 4"
  let ?nd3 = "new_doc ?o3 sample_parsed sample_account ''INBOX''"
  let ?w1 = "processEmail sample_cfg ?o3 sample_parsed sample_account ''INBOX'' empty_world"
  let ?w2 = "processEmail sample_cfg ?o4 sample_parsed sample_account ''INBOX'' ?w1"
  have l: "length (pipelines ?b0) = 2" by (simp add: startBatch_def twin_facts(1))
  have e: "es_docs empty_world = []" by (simp add: empty_world_def)
  have r: "rawMessageId_of sample_parsed \<noteq> []" by (simp add: sample_raw)
  have "shared (run_schedule sample_cfg twin_env sample_account ''INBOX'' (in_order 2) ?b0)
        = snd (processMessages sample_cfg twin_env sample_account ''INBOX'' [3, 4] empty_world)"
    using processMessages_in_order[of sample_cfg twin_env sample_account "''INBOX''" "[3, 4]"
        empty_world] by (simp only: l)
  also have "\<dots> = ?w2"
    by (simp add: processMessages_Cons_snd twin_facts(1))
  finally have s: "shared (run_schedule sample_cfg twin_env sample_account ''INBOX'' (in_order 2) ?b0)
                   = ?w2" .
  have nd: "\<not> is_duplicate ?o3 sample_parsed empty_world" by (simp add: is_duplicate_eq e)
  have d1: "es_docs ?w1 = set_category (uuid ?o3) ''Interested'' [?nd3]"
    using nd by (simp add: processEmail_es_docs twin_facts twin_classification e es_put_Nil)
  have m: "doc_messageId ?nd3 = rawMessageId_of sample_parsed"
    using r by (simp add: new_doc_def emailDoc_of_def)
  have d1': "es_docs ?w1 = [?nd3\<lparr>doc_aiCategory := ''Interested''\<rparr>]"
    unfolding d1 by (simp add: set_category_def new_doc_id)
  have "\<exists>d \<in> set (es_docs ?w1). doc_messageId d = rawMessageId_of sample_parsed"
    unfolding d1' by (simp add: m)
  then have dup: "is_duplicate ?o4 sample_parsed ?w1"
    using r by (simp add: is_duplicate_eq twin_facts(2))
  then have "es_docs ?w2 = es_docs ?w1" by (simp add: processEmail_es_docs)
  then have "map doc_id (es_docs ?w2) = [''uuid-3'']"
    unfolding d1' by (simp add: new_doc_id twin_facts(5) twin_digits)
  then show ?thesis by (simp only: s)
qed

end
